theory Spec2Isabelle
  imports Main "HOL-Library.Char_ord" "HOL-Library.List_Lexorder"
begin

section \<open>Values: JSON documents and in-memory JavaScript values\<close>

text \<open>
  A file of the state store holds a JSON document. The plugin blobs (\<open>any\<close> in the
  source) are JSON values; numbers are modelled as integers.
\<close>

datatype json = JNull | JBool bool | JNum int | JStr string
  | JArr "json list" | JObj "(string \<times> json) list"

text \<open>
  In memory a primitive is held by value and an array or an object by reference.
  \<open>VArr i xs\<close> and \<open>VObj i kvs\<close> stand for the reference to the heap object number
  \<open>i\<close>, shown with its content. Two values denote the same JavaScript object exactly
  when they carry the same number; a copy has the same content under a fresh number.
  The state manager never changes an object in place, so the content travels with
  the reference.
\<close>

datatype jsval = VNull | VBool bool | VNum int | VStr string
  | VArr nat "json list" | VObj nat "(string \<times> json) list"

text \<open>JavaScript truthiness, as used by \<open>if (x)\<close>, \<open>!x\<close>, \<open>x && y\<close> and \<open>x || y\<close>.\<close>

fun truthy :: "jsval \<Rightarrow> bool" where
  "truthy VNull = False"
| "truthy (VBool b) = b"
| "truthy (VNum n) = (n \<noteq> 0)"
| "truthy (VStr s) = (s \<noteq> [])"
| "truthy (VArr i xs) = True"
| "truthy (VObj i kvs) = True"

text \<open>
  A value of type \<open>string | null | undefined\<close> is a \<open>string option\<close>; it is truthy
  when it is a non-empty string. \<open>named\<close> returns the string in that case.
\<close>

definition named :: "string option \<Rightarrow> string option" where
  "named s = (case s of None \<Rightarrow> None | Some x \<Rightarrow> if x = [] then None else Some x)"

text \<open>\<open>JSON.stringify\<close> reads the content of a value.\<close>

fun JSON_stringify :: "jsval \<Rightarrow> json" where
  "JSON_stringify VNull = JNull"
| "JSON_stringify (VBool b) = JBool b"
| "JSON_stringify (VNum n) = JNum n"
| "JSON_stringify (VStr s) = JStr s"
| "JSON_stringify (VArr i xs) = JArr xs"
| "JSON_stringify (VObj i kvs) = JObj kvs"

text \<open>
  \<open>JSON.parse\<close> builds a new value: an array or an object is allocated under the next
  free object number, which is threaded through.
\<close>

fun JSON_parse :: "nat \<Rightarrow> json \<Rightarrow> jsval \<times> nat" where
  "JSON_parse n JNull = (VNull, n)"
| "JSON_parse n (JBool b) = (VBool b, n)"
| "JSON_parse n (JNum k) = (VNum k, n)"
| "JSON_parse n (JStr s) = (VStr s, n)"
| "JSON_parse n (JArr xs) = (VArr n xs, Suc n)"
| "JSON_parse n (JObj kvs) = (VObj n kvs, Suc n)"

fun object_id :: "jsval \<Rightarrow> nat option" where
  "object_id (VArr i xs) = Some i"
| "object_id (VObj i kvs) = Some i"
| "object_id v = None"

definition same_object :: "jsval \<Rightarrow> jsval \<Rightarrow> bool" where
  "same_object a b = (case object_id a of None \<Rightarrow> False | Some i \<Rightarrow> object_id b = Some i)"

section \<open>Paths\<close>

text \<open>
  \<open>path.join\<close> of Node.js on POSIX: the non-empty arguments are joined with a slash
  and the result is normalised (empty and \<open>.\<close> segments dropped, \<open>..\<close> resolved
  against the segment before it).
\<close>

fun split_sep :: "string \<Rightarrow> string list" where
  "split_sep [] = [[]]"
| "split_sep (c # cs) =
     (if c = CHR ''/'' then [] # split_sep cs
      else (case split_sep cs of [] \<Rightarrow> [[c]] | s # ss \<Rightarrow> (c # s) # ss))"

fun join_sep :: "string list \<Rightarrow> string" where
  "join_sep [] = []"
| "join_sep [s] = s"
| "join_sep (s # t # ss) = s @ CHR ''/'' # join_sep (t # ss)"

fun normalizeString :: "bool \<Rightarrow> string list \<Rightarrow> string list \<Rightarrow> string list" where
  "normalizeString allowAboveRoot res [] = rev res"
| "normalizeString allowAboveRoot res (s # ss) =
     (if s = [] \<or> s = ''.'' then normalizeString allowAboveRoot res ss
      else if s = ''..'' then
        (case res of
           r # rs \<Rightarrow>
             if r = ''..'' then
               normalizeString allowAboveRoot (if allowAboveRoot then s # res else res) ss
             else normalizeString allowAboveRoot rs ss
         | [] \<Rightarrow> normalizeString allowAboveRoot (if allowAboveRoot then [s] else []) ss)
      else normalizeString allowAboveRoot (s # res) ss)"

definition path_normalize :: "string \<Rightarrow> string" where
  "path_normalize p =
     (if p = [] then ''.''
      else
        (let isAbsolute = (hd p = CHR ''/'');
             trailingSeparator = (last p = CHR ''/'');
             q = join_sep (normalizeString (\<not> isAbsolute) [] (split_sep p))
         in if q = [] then (if isAbsolute then ''/'' else if trailingSeparator then ''./'' else ''.'')
            else
              (let q' = (if trailingSeparator then q @ ''/'' else q)
               in if isAbsolute then CHR ''/'' # q' else q')))"

definition path_join :: "string list \<Rightarrow> string" where
  "path_join args =
     (let parts = filter (\<lambda>a. a \<noteq> []) args
      in if parts = [] then ''.'' else path_normalize (join_sep parts))"

section \<open>The state manager\<close>

record ChannelStateMetadata =
  lastModifiedMessageId :: "string option"
  parentChannelId :: "string option"
  historyOriginChannelId :: "string option"

record 'v channel_data =
  state :: 'v
  metadata :: ChannelStateMetadata

record 'v StateEvent =
  messageId :: string
  timestamp :: string
  delta :: 'v

text \<open>
  The three file formats. In a file the blobs are JSON documents; in memory they are
  values. \<open>Garbled\<close> is a file whose text \<open>JSON.parse\<close> rejects.
\<close>

datatype stored_file =
    GlobalFile json
  | ChannelFile "json channel_data"
  | EpicFile "json StateEvent list"
  | Garbled

datatype error = CorruptData | InvalidIdentifier

datatype level = LDebug | LWarn | LError

text \<open>
  \<open>String.prototype.localeCompare\<close> is a built-in of the JavaScript engine: it compares
  by the collation of the engine's locale, not by code units. The source fixes
  neither the engine nor the locale, so the collation is part of the environment of
  a manager (the field \<open>collation\<close> below) and every theorem about an arbitrary
  \<open>world\<close> holds for every collation.

  \<open>ascii_collation\<close> is the collation on which the scenarios of this theory run. On
  strings of ASCII letters and digits it compares as ICU does in Node.js under an
  English locale: alphabetically without regard to case, digits before letters, a
  prefix before its extensions; strings equal up to case are ordered by the first
  place where they differ, lower case first. So \<open>'a'.localeCompare('B')\<close> is \<open>-1\<close>
  although \<open>'B' < 'a'\<close> in code units, and on strings of digits the order is the
  lexicographic one.
\<close>

definition to_lower :: "char \<Rightarrow> char" where
  "to_lower c =
     (case map_of (zip ''ABCDEFGHIJKLMNOPQRSTUVWXYZ'' ''abcdefghijklmnopqrstuvwxyz'') c of
        Some l \<Rightarrow> l
      | None \<Rightarrow> c)"

definition ascii_collation :: "string \<Rightarrow> string \<Rightarrow> int" where
  "ascii_collation a b =
     (if map to_lower a < map to_lower b then - 1
      else if map to_lower b < map to_lower a then 1
      else if a = b then 0
      else if b < a then - 1
      else 1)"

text \<open>
  The state of one \<open>PluginStateManager\<close> and of what it acts on: its two constructor
  arguments, the collation of the engine, the files on disk by path, the next free
  object number, the three caches (\<open>globalCache\<close> is \<open>null\<close> when empty) and the lines
  given to the logger.
\<close>

record world =
  cacheDir :: string
  pluginId :: string
  collation :: "string \<Rightarrow> string \<Rightarrow> int"
  files :: "string \<rightharpoonup> stored_file"
  nextObject :: nat
  globalCache :: jsval
  channelCache :: "string \<rightharpoonup> jsval channel_data"
  epicEventsCache :: "string \<rightharpoonup> jsval StateEvent list"
  logged :: "(level \<times> string) list"

definition logger :: "level \<Rightarrow> string \<Rightarrow> world \<Rightarrow> world" where
  "logger lvl msg w = w\<lparr>logged := logged w @ [(lvl, msg)]\<rparr>"

text \<open>
  \<open>fs.readFile\<close> followed by \<open>JSON.parse\<close> and the cast to the declared type. A path
  with no file is \<open>ENOENT\<close> (\<open>None\<close>). The source rethrows every error other than
  \<open>ENOENT\<close>, here as \<open>CorruptData\<close>: that is the read of a garbled file. The casts of
  the source are unchecked: from a parseable document of another format it takes the
  fields the document happens to have, undefined ones among them. The model has no
  such values and lets that read throw as well; none of the claims proved below
  asserts that such a read fails. \<open>fs.mkdir\<close> and \<open>fs.writeFile\<close> succeed.
\<close>

text \<open>
  The constructor: a manager with empty caches over the files on disk, on an engine
  that compares with \<open>ascii_collation\<close>.
\<close>

definition newPluginStateManager :: "string \<Rightarrow> string \<Rightarrow> (string \<rightharpoonup> stored_file) \<Rightarrow> world" where
  "newPluginStateManager dir plugin disk =
     \<lparr>cacheDir = dir, pluginId = plugin, collation = ascii_collation, files = disk,
      nextObject = 0,
      globalCache = VNull, channelCache = Map.empty, epicEventsCache = Map.empty,
      logged = []\<rparr>"

subsection \<open>Global state\<close>

definition globalPath :: "world \<Rightarrow> string" where
  "globalPath w = path_join [cacheDir w, ''plugins'', pluginId w, ''global.json'']"

definition getGlobalState :: "world \<Rightarrow> (error + jsval) \<times> world" where
  "getGlobalState w =
     (if globalCache w \<noteq> VNull then (Inr (globalCache w), w)
      else
        (case files w (globalPath w) of
           None \<Rightarrow> (Inr VNull, w)
         | Some (GlobalFile d) \<Rightarrow>
             (let (v, n) = JSON_parse (nextObject w) d
              in (Inr v, w\<lparr>nextObject := n, globalCache := v\<rparr>))
         | Some other \<Rightarrow> (Inl CorruptData, logger LError ''Failed to read global state'' w)))"

definition setGlobalState :: "jsval \<Rightarrow> world \<Rightarrow> (error + unit) \<times> world" where
  "setGlobalState st w =
     (Inr (),
      logger LDebug ''Saved global state''
        (w\<lparr>files := (files w)(globalPath w \<mapsto> GlobalFile (JSON_stringify st)),
           globalCache := st\<rparr>))"

subsection \<open>Channel state\<close>

definition channelPath :: "world \<Rightarrow> string \<Rightarrow> string" where
  "channelPath w channelId =
     path_join [cacheDir w, ''plugins'', pluginId w, ''channel'', channelId @ ''.json'']"

record InheritanceInfo =
  inh_parentChannelId :: "string option"
  inh_historyOriginChannelId :: "string option"

text \<open>\<open>inheritFrom?.historyOriginChannelId\<close> and \<open>inheritFrom?.parentChannelId\<close>.\<close>

definition historyOrigin_of :: "InheritanceInfo option \<Rightarrow> string option" where
  "historyOrigin_of inheritFrom =
     (case inheritFrom of None \<Rightarrow> None | Some i \<Rightarrow> inh_historyOriginChannelId i)"

definition parent_of :: "InheritanceInfo option \<Rightarrow> string option" where
  "parent_of inheritFrom =
     (case inheritFrom of None \<Rightarrow> None | Some i \<Rightarrow> inh_parentChannelId i)"

definition noState :: "jsval channel_data" where
  "noState =
     \<lparr>state = VNull,
      metadata = \<lparr>lastModifiedMessageId = None, parentChannelId = None,
                  historyOriginChannelId = None\<rparr>\<rparr>"

function getChannelState ::
  "string \<Rightarrow> InheritanceInfo option \<Rightarrow> world \<Rightarrow> (error + jsval channel_data) \<times> world" where
  "getChannelState channelId inheritFrom w =
     (case channelCache w channelId of
        Some cached \<Rightarrow> (Inr cached, w)
      | None \<Rightarrow>
        (case files w (channelPath w channelId) of
           Some (ChannelFile parsed) \<Rightarrow>
             (let (s, n) = JSON_parse (nextObject w) (state parsed);
                  result = \<lparr>state = s, metadata = metadata parsed\<rparr>
              in (Inr result,
                  w\<lparr>nextObject := n, channelCache := (channelCache w)(channelId \<mapsto> result)\<rparr>))
         | Some other \<Rightarrow> (Inl CorruptData, logger LError ''Failed to read channel state'' w)
         | None \<Rightarrow>
           (let tryParent = (\<lambda>w1.
                  (case named (parent_of inheritFrom) of
                     Some parentId \<Rightarrow>
                       (case getChannelState parentId None w1 of
                          (Inl e, w2) \<Rightarrow> (Inl e, w2)
                        | (Inr parent, w2) \<Rightarrow>
                            if truthy (state parent) then
                              (Inr \<lparr>state = state parent,
                                    metadata = (metadata parent)\<lparr>parentChannelId := Some parentId\<rparr>\<rparr>,
                               logger LDebug ''Inheriting channel state from parent channel'' w2)
                            else (Inr noState, w2))
                   | None \<Rightarrow> (Inr noState, w1)))
            in (case named (historyOrigin_of inheritFrom) of
                  Some originId \<Rightarrow>
                    (case getChannelState originId None w of
                       (Inl e, w1) \<Rightarrow> (Inl e, w1)
                     | (Inr origin, w1) \<Rightarrow>
                         if truthy (state origin) then
                           (Inr \<lparr>state = state origin,
                                 metadata = (metadata origin)\<lparr>historyOriginChannelId := Some originId\<rparr>\<rparr>,
                            logger LDebug ''Inheriting channel state from .history origin'' w1)
                         else tryParent w1)
                | None \<Rightarrow> tryParent w))))"
  by pat_completeness auto
termination
  by (relation "measure (\<lambda>(c, i, w). case i of None \<Rightarrow> 0 | Some x \<Rightarrow> Suc 0)")
     (auto simp: named_def historyOrigin_of_def parent_of_def split: option.splits)

definition setChannelState ::
  "string \<Rightarrow> jsval \<Rightarrow> string option \<Rightarrow> world \<Rightarrow> (error + unit) \<times> world" where
  "setChannelState channelId st msgId w =
     (case getChannelState channelId None w of
        (Inl e, w1) \<Rightarrow> (Inl e, w1)
      | (Inr existing, w1) \<Rightarrow>
          (let md = (metadata existing)
                      \<lparr>lastModifiedMessageId :=
                         (case named msgId of
                            Some m \<Rightarrow> Some m
                          | None \<Rightarrow> lastModifiedMessageId (metadata existing))\<rparr>;
               data = \<lparr>state = st, metadata = md\<rparr>
           in (Inr (),
               logger LDebug ''Saved channel state''
                 (w1\<lparr>files := (files w1)(channelPath w1 channelId \<mapsto>
                                  ChannelFile \<lparr>state = JSON_stringify st, metadata = md\<rparr>),
                     channelCache := (channelCache w1)(channelId \<mapsto> data)\<rparr>))))"

subsection \<open>Epic state (event-sourced)\<close>

text \<open>\<open>a.localeCompare(b)\<close> on the engine of the manager.\<close>

definition localeCompare :: "world \<Rightarrow> string \<Rightarrow> string \<Rightarrow> int" where
  "localeCompare w a b = collation w a b"

text \<open>
  \<open>Array.prototype.sort\<close> with a comparator is a stable sort: \<open>x\<close> goes before the
  first element it does not compare greater than. For a comparator that is a total
  preorder, as a collation is, the result of a stable sort is determined; for any
  other comparator the language leaves the order to the engine.
\<close>

fun insert_sorted :: "('a \<Rightarrow> 'a \<Rightarrow> int) \<Rightarrow> 'a \<Rightarrow> 'a list \<Rightarrow> 'a list" where
  "insert_sorted cmp x [] = [x]"
| "insert_sorted cmp x (y # ys) =
     (if cmp x y \<le> 0 then x # y # ys else y # insert_sorted cmp x ys)"

definition array_sort :: "('a \<Rightarrow> 'a \<Rightarrow> int) \<Rightarrow> 'a list \<Rightarrow> 'a list" where
  "array_sort cmp xs = foldr (insert_sorted cmp) xs []"

definition epicEventsPath :: "world \<Rightarrow> string \<Rightarrow> string" where
  "epicEventsPath w channelId =
     path_join [cacheDir w, ''plugins'', pluginId w, ''epic'', channelId @ ''.json'']"

fun parse_events :: "nat \<Rightarrow> json StateEvent list \<Rightarrow> jsval StateEvent list \<times> nat" where
  "parse_events n [] = ([], n)"
| "parse_events n (e # es) =
     (let (d, n1) = JSON_parse n (delta e);
          (rest, n2) = parse_events n1 es
      in (\<lparr>messageId = messageId e, timestamp = timestamp e, delta = d\<rparr> # rest, n2))"

definition stringify_event :: "jsval StateEvent \<Rightarrow> json StateEvent" where
  "stringify_event e =
     \<lparr>messageId = messageId e, timestamp = timestamp e, delta = JSON_stringify (delta e)\<rparr>"

definition getEpicEvents :: "string \<Rightarrow> world \<Rightarrow> (error + jsval StateEvent list) \<times> world" where
  "getEpicEvents channelId w =
     (case epicEventsCache w channelId of
        Some cached \<Rightarrow> (Inr cached, w)
      | None \<Rightarrow>
        (case files w (epicEventsPath w channelId) of
           None \<Rightarrow> (Inr [], w)
         | Some (EpicFile ds) \<Rightarrow>
             (let (events, n) = parse_events (nextObject w) ds
              in (Inr events,
                  w\<lparr>nextObject := n,
                    epicEventsCache := (epicEventsCache w)(channelId \<mapsto> events)\<rparr>))
         | Some other \<Rightarrow> (Inl CorruptData, w)))"

definition saveEpicEvents :: "string \<Rightarrow> jsval StateEvent list \<Rightarrow> world \<Rightarrow> world" where
  "saveEpicEvents channelId events w =
     w\<lparr>files := (files w)(epicEventsPath w channelId \<mapsto> EpicFile (map stringify_event events)),
       epicEventsCache := (epicEventsCache w)(channelId \<mapsto> events)\<rparr>"

text \<open>
  \<open>now\<close> is the value of \<open>new Date().toISOString()\<close> at the call, an input from the
  environment.
\<close>

definition recordEpicEvent ::
  "string \<Rightarrow> string \<Rightarrow> jsval \<Rightarrow> string \<Rightarrow> world \<Rightarrow> (error + unit) \<times> world" where
  "recordEpicEvent channelId msgId d now w =
     (case getEpicEvents channelId w of
        (Inl e, w1) \<Rightarrow> (Inl e, w1)
      | (Inr events, w1) \<Rightarrow>
          (let filtered = filter (\<lambda>e. messageId e \<noteq> msgId) events;
               pushed = filtered @ [\<lparr>messageId = msgId, timestamp = now, delta = d\<rparr>];
               sorted_events =
                 array_sort (\<lambda>a b. localeCompare w (messageId a) (messageId b)) pushed
           in (Inr (),
               logger LDebug ''Recorded epic event'' (saveEpicEvents channelId sorted_events w1))))"

text \<open>
  The loop of \<open>getEpicState\<close> over the events still to visit, with the state
  accumulated so far: \<open>break\<close> returns, \<open>continue\<close> goes on with the state unchanged.
\<close>

fun replay ::
  "string option \<Rightarrow> string set option \<Rightarrow> (jsval \<Rightarrow> jsval \<Rightarrow> jsval) \<Rightarrow>
   jsval StateEvent list \<Rightarrow> jsval \<Rightarrow> world \<Rightarrow> jsval \<times> world" where
  "replay upToMessageId messageIds reducer [] st w = (st, w)"
| "replay upToMessageId messageIds reducer (event # events) st w =
     (if (case named upToMessageId of
            None \<Rightarrow> False
          | Some u \<Rightarrow> localeCompare w (messageId event) u > 0)
      then (st, w)
      else if (case messageIds of None \<Rightarrow> False | Some ids \<Rightarrow> messageId event \<notin> ids)
      then replay upToMessageId messageIds reducer events st
             (logger LDebug ''Skipping epic event for deleted message'' w)
      else replay upToMessageId messageIds reducer events (reducer st (delta event)) w)"

definition getEpicState ::
  "string \<Rightarrow> string option \<Rightarrow> string set option \<Rightarrow> (jsval \<Rightarrow> jsval \<Rightarrow> jsval) \<Rightarrow>
   world \<Rightarrow> (error + jsval) \<times> world" where
  "getEpicState channelId upToMessageId messageIds reducer w =
     (case getEpicEvents channelId w of
        (Inl e, w1) \<Rightarrow> (Inl e, w1)
      | (Inr events, w1) \<Rightarrow>
          (let (st, w2) = replay upToMessageId messageIds reducer events VNull w1
           in (Inr st, w2)))"

definition forkEpicState ::
  "string \<Rightarrow> string \<Rightarrow> string \<Rightarrow> world \<Rightarrow> (error + unit) \<times> world" where
  "forkEpicState parentChannel threadId threadCreationMessageId w =
     (case getEpicEvents parentChannel w of
        (Inl e, w1) \<Rightarrow> (Inl e, w1)
      | (Inr parentEvents, w1) \<Rightarrow>
          (let forkedEvents =
                 filter (\<lambda>e. localeCompare w (messageId e) threadCreationMessageId \<le> 0)
                   parentEvents
           in if length forkedEvents > 0 then
                (Inr (),
                 logger LDebug ''Forked epic state for thread''
                   (saveEpicEvents threadId forkedEvents w1))
              else (Inr (), w1)))"

section \<open>The context factory\<close>

record PluginContextFactory =
  messageIds :: "string list"
  messageIdSet :: "string set"
  messagePositions :: "string \<rightharpoonup> nat"

text \<open>The loop that fills the position map, from index \<open>i\<close> on.\<close>

fun setPositions :: "string list \<Rightarrow> nat \<Rightarrow> (string \<rightharpoonup> nat) \<Rightarrow> (string \<rightharpoonup> nat)" where
  "setPositions [] i m = m"
| "setPositions (x # xs) i m = setPositions xs (Suc i) (m(x \<mapsto> i))"

definition newPluginContextFactory :: "string list \<Rightarrow> PluginContextFactory" where
  "newPluginContextFactory ids =
     \<lparr>messageIds = ids, messageIdSet = set ids,
      messagePositions = setPositions ids 0 Map.empty\<rparr>"

definition updateMessageIds :: "string list \<Rightarrow> PluginContextFactory \<Rightarrow> PluginContextFactory" where
  "updateMessageIds ids f =
     f\<lparr>messageIds := ids, messageIdSet := set ids,
       messagePositions := setPositions ids 0 Map.empty\<rparr>"

definition calculateCurrentDepth :: "PluginContextFactory \<Rightarrow> string option \<Rightarrow> int \<Rightarrow> int" where
  "calculateCurrentDepth f lastModifiedAt targetDepth =
     (case named lastModifiedAt of
        None \<Rightarrow> targetDepth
      | Some m \<Rightarrow>
        (case messagePositions f m of
           None \<Rightarrow> targetDepth
         | Some position \<Rightarrow>
             (let messagesSince = int (length (messageIds f)) - 1 - int position
              in min messagesSince targetDepth)))"

datatype StateScope = ScopeGlobal | ScopeChannel | ScopeEpic

text \<open>
  What the closures of \<open>createStateContext\<close> capture: the plugin, the channel and the
  triggering message of the base context, the inheritance information, the reducer
  (absent when none was supplied) and the set of message ids of the factory.
\<close>

record PluginStateContext =
  ctx_pluginId :: string
  ctx_channelId :: string
  ctx_currentMessageId :: string
  ctx_inheritanceInfo :: "InheritanceInfo option"
  ctx_epicReducer :: "(jsval \<Rightarrow> jsval \<Rightarrow> jsval) option"
  ctx_messageIdSet :: "string set"

definition createStateContext ::
  "PluginContextFactory \<Rightarrow> string \<Rightarrow> string \<Rightarrow> string \<Rightarrow> InheritanceInfo option \<Rightarrow>
   (jsval \<Rightarrow> jsval \<Rightarrow> jsval) option \<Rightarrow> PluginStateContext" where
  "createStateContext f plugin channelId currentMessageId inheritanceInfo epicReducer =
     \<lparr>ctx_pluginId = plugin, ctx_channelId = channelId,
      ctx_currentMessageId = currentMessageId, ctx_inheritanceInfo = inheritanceInfo,
      ctx_epicReducer = epicReducer, ctx_messageIdSet = messageIdSet f\<rparr>"

text \<open>\<open>result.state\<close> of an awaited \<open>getChannelState\<close>.\<close>

definition state_of ::
  "(error + jsval channel_data) \<times> world \<Rightarrow> (error + jsval) \<times> world" where
  "state_of r = (case r of (Inl e, w) \<Rightarrow> (Inl e, w) | (Inr res, w) \<Rightarrow> (Inr (state res), w))"

definition getState :: "PluginStateContext \<Rightarrow> StateScope \<Rightarrow> world \<Rightarrow> (error + jsval) \<times> world" where
  "getState c scope w =
     (case scope of
        ScopeGlobal \<Rightarrow> getGlobalState w
      | ScopeChannel \<Rightarrow> state_of (getChannelState (ctx_channelId c) (ctx_inheritanceInfo c) w)
      | ScopeEpic \<Rightarrow>
        (case ctx_epicReducer c of
           None \<Rightarrow>
             state_of (getChannelState (ctx_channelId c) (ctx_inheritanceInfo c)
               (logger LWarn ''Epic reducer not provided, falling back to channel state'' w))
         | Some epicReducer \<Rightarrow>
             getEpicState (ctx_channelId c) None (Some (ctx_messageIdSet c)) epicReducer w))"

definition setState ::
  "PluginStateContext \<Rightarrow> StateScope \<Rightarrow> jsval \<Rightarrow> string \<Rightarrow> world \<Rightarrow> (error + unit) \<times> world" where
  "setState c scope st now w =
     (case scope of
        ScopeGlobal \<Rightarrow> setGlobalState st w
      | ScopeChannel \<Rightarrow> setChannelState (ctx_channelId c) st (Some (ctx_currentMessageId c)) w
      | ScopeEpic \<Rightarrow> recordEpicEvent (ctx_channelId c) (ctx_currentMessageId c) st now w)"

definition getStateAtMessage ::
  "PluginStateContext \<Rightarrow> string \<Rightarrow> world \<Rightarrow> (error + jsval) \<times> world" where
  "getStateAtMessage c msgId w =
     (case ctx_epicReducer c of
        None \<Rightarrow> (Inr VNull, logger LWarn ''getStateAtMessage requires epic scope with reducer'' w)
      | Some epicReducer \<Rightarrow>
          getEpicState (ctx_channelId c) (Some msgId) (Some (ctx_messageIdSet c)) epicReducer w)"

section \<open>The claims, in their own words\<close>

text \<open>
  The depth as the specification words it: the target depth when \<open>lastModifiedAt\<close> is
  null or absent from the list, else the minimum of \<open>n - 1 - pos\<close> and the target depth.
  \<open>last_index\<close> is the position the map of the factory holds for an identifier of the
  list: the loop of the constructor overwrites an earlier position with a later one.
\<close>

fun last_index :: "'a list \<Rightarrow> 'a \<Rightarrow> nat" where
  "last_index [] k = 0"
| "last_index (x # xs) k = (if k \<in> set xs then Suc (last_index xs k) else 0)"

definition calculateCurrentDepth_claimed :: "string list \<Rightarrow> string option \<Rightarrow> int \<Rightarrow> int" where
  "calculateCurrentDepth_claimed ids lastModifiedAt targetDepth =
     (case lastModifiedAt of
        None \<Rightarrow> targetDepth
      | Some m \<Rightarrow>
          if m \<in> set ids
          then min (int (length ids) - 1 - int (last_index ids m)) targetDepth
          else targetDepth)"

text \<open>
  The replay as the specification words it: fold the events in stored order from
  \<open>null\<close>, stop before the first event lexicographically greater than a non-null
  bound, skip the events outside a non-null live set.
\<close>

definition replay_claimed ::
  "string option \<Rightarrow> string set option \<Rightarrow> (jsval \<Rightarrow> jsval \<Rightarrow> jsval) \<Rightarrow>
   jsval StateEvent list \<Rightarrow> jsval" where
  "replay_claimed upTo live reducer events =
     foldl reducer VNull
       (map delta
         (filter (\<lambda>e. case live of None \<Rightarrow> True | Some ids \<Rightarrow> messageId e \<in> ids)
           (takeWhile (\<lambda>e. case upTo of None \<Rightarrow> True | Some u \<Rightarrow> messageId e \<le> u) events)))"

text \<open>
  The same as the source reads it: an empty bound is no bound, and an event is past
  the bound when \<open>localeCompare\<close>, here the comparison \<open>cmp\<close>, orders its message id
  after the bound.
\<close>

definition replay_amended ::
  "(string \<Rightarrow> string \<Rightarrow> int) \<Rightarrow> string option \<Rightarrow> string set option \<Rightarrow>
   (jsval \<Rightarrow> jsval \<Rightarrow> jsval) \<Rightarrow> jsval StateEvent list \<Rightarrow> jsval" where
  "replay_amended cmp upTo live reducer events =
     foldl reducer VNull
       (map delta
         (filter (\<lambda>e. case live of None \<Rightarrow> True | Some ids \<Rightarrow> messageId e \<in> ids)
           (takeWhile (\<lambda>e. case named upTo of None \<Rightarrow> True | Some u \<Rightarrow> cmp (messageId e) u \<le> 0)
              events)))"

text \<open>
  Two properties a comparison of identifiers may have. It is \<open>consistent\<close> when
  ``ordered at or before'' is a total preorder, as it is for every collation. It is
  lexicographic on a set of identifiers when on them it orders as the code units
  do; the collation of the engine is lexicographic on the identifiers made of
  decimal digits only, the snowflake-shaped ones.
\<close>

definition consistent :: "(string \<Rightarrow> string \<Rightarrow> int) \<Rightarrow> bool" where
  "consistent cmp =
     ((\<forall>a b. cmp a b \<le> 0 \<or> cmp b a \<le> 0) \<and>
      (\<forall>a b c. cmp a b \<le> 0 \<and> cmp b c \<le> 0 \<longrightarrow> cmp a c \<le> 0))"

definition lexicographic_on :: "(string \<Rightarrow> string \<Rightarrow> int) \<Rightarrow> string set \<Rightarrow> bool" where
  "lexicographic_on cmp S = (\<forall>a \<in> S. \<forall>b \<in> S. (cmp a b \<le> 0) = (a \<le> b))"

definition digits_only :: "string \<Rightarrow> bool" where
  "digits_only s = (set s \<subseteq> set ''0123456789'')"
section \<open>Invariants and scenarios\<close>

text \<open>
  The invariant of an event log: at most one event for a message id, and the events
  in the order of the comparison, none ordered after a later one. \<open>store_ok\<close> asks it
  of every log the manager holds, in its cache and on disk, for the collation of its
  engine.
\<close>

definition log_ok :: "(string \<Rightarrow> string \<Rightarrow> int) \<Rightarrow> 'v StateEvent list \<Rightarrow> bool" where
  "log_ok cmp events =
     (distinct (map messageId events) \<and>
      sorted_wrt (\<lambda>a b. cmp (messageId a) (messageId b) \<le> 0) events)"

definition store_ok :: "world \<Rightarrow> bool" where
  "store_ok w =
     ((\<forall>c events. epicEventsCache w c = Some events \<longrightarrow> log_ok (collation w) events) \<and>
      (\<forall>p ds. files w p = Some (EpicFile ds) \<longrightarrow> log_ok (collation w) ds))"

text \<open>
  A sequence of \<open>recordEpicEvent\<close> calls, each with its channel, message id, delta and
  time stamp; a call that throws leaves the caller with the state it reached.
\<close>

fun recordAll :: "(string \<times> string \<times> jsval \<times> string) list \<Rightarrow> world \<Rightarrow> world" where
  "recordAll [] w = w"
| "recordAll ((channelId, msgId, d, now) # calls) w =
     recordAll calls (snd (recordEpicEvent channelId msgId d now w))"

text \<open>
  The reducer of scenario S3 of the specification, \<open>(s, d) \<rightarrow> (s || 0) + d\<close>, on
  numbers, and the log of that scenario on disk under a fresh manager.
\<close>

fun counter_reducer :: "jsval \<Rightarrow> jsval \<Rightarrow> jsval" where
  "counter_reducer (VNum s) (VNum d) = VNum (s + d)"
| "counter_reducer VNull (VNum d) = VNum d"
| "counter_reducer s d = VNull"

definition scenario_log :: "json StateEvent list" where
  "scenario_log =
     [\<lparr>messageId = ''m1'', timestamp = ''t1'', delta = JNum 1\<rparr>,
      \<lparr>messageId = ''m2'', timestamp = ''t2'', delta = JNum 1\<rparr>,
      \<lparr>messageId = ''m3'', timestamp = ''t3'', delta = JNum 1\<rparr>]"

definition scenario_world :: world where
  "scenario_world =
     newPluginStateManager ''cache'' ''p''
       [''cache/plugins/p/epic/c.json'' \<mapsto> EpicFile scenario_log]"

definition scenario_calls :: "(string \<times> string \<times> jsval \<times> string) list" where
  "scenario_calls =
     [(''c'', ''m3'', VNum 3, ''t1''), (''c'', ''m1'', VNum 1, ''t2''),
      (''c'', ''m2'', VNum 2, ''t3''), (''c'', ''m1'', VNum 7, ''t4'')]"

text \<open>
  A channel has stored state when the manager holds an entry for it, in its cache or
  in the file of the channel.
\<close>

definition has_stored_state :: "world \<Rightarrow> string \<Rightarrow> bool" where
  "has_stored_state w x =
     (case channelCache w x of
        Some r \<Rightarrow> True
      | None \<Rightarrow> (case files w (channelPath w x) of Some (ChannelFile d) \<Rightarrow> True | _ \<Rightarrow> False))"

text \<open>
  An inheritance source is skipped, leaving the state \<open>w1\<close>, when it is not named
  (null, undefined or the empty string) or when the read of its channel returns a
  falsy state.
\<close>

definition skipped :: "string option \<Rightarrow> world \<Rightarrow> world \<Rightarrow> bool" where
  "skipped source w w1 =
     (case named source of
        None \<Rightarrow> w1 = w
      | Some x \<Rightarrow> (\<exists>r. getChannelState x None w = (Inr r, w1) \<and> \<not> truthy (state r)))"

text \<open>
  Scenario S4 of the specification, with a history origin beside the parent: the
  channels \<open>P\<close> and \<open>H\<close> have a file, the channel \<open>C\<close> has none. In \<open>zero_world\<close> the
  channel \<open>H\<close> was given the blob \<open>0\<close> through \<open>setChannelState\<close>.
\<close>

definition lineage_world :: world where
  "lineage_world =
     newPluginStateManager ''cache'' ''p''
       [''cache/plugins/p/channel/P.json'' \<mapsto>
          ChannelFile \<lparr>state = JObj [(''counter'', JNum 5)],
            metadata = \<lparr>lastModifiedMessageId = Some ''m1'', parentChannelId = None,
                        historyOriginChannelId = None\<rparr>\<rparr>,
        ''cache/plugins/p/channel/H.json'' \<mapsto>
          ChannelFile \<lparr>state = JObj [(''counter'', JNum 9)],
            metadata = \<lparr>lastModifiedMessageId = Some ''m7'', parentChannelId = None,
                        historyOriginChannelId = None\<rparr>\<rparr>]"

definition zero_world :: world where
  "zero_world =
     snd (setChannelState ''H'' (VNum 0) (Some ''m1'')
            (newPluginStateManager ''cache'' ''p'' Map.empty))"

text \<open>
  The blob the manager holds for a channel: the content of the cached state, else the
  state in the file of the channel.
\<close>

definition stored_blob :: "world \<Rightarrow> string \<Rightarrow> json option" where
  "stored_blob w x =
     (case channelCache w x of
        Some r \<Rightarrow> Some (JSON_stringify (state r))
      | None \<Rightarrow>
          (case files w (channelPath w x) of
             Some (ChannelFile d) \<Rightarrow> Some (state d)
           | _ \<Rightarrow> None))"

text \<open>
  What reads may do to the manager: the files stay, a cached channel stays cached as
  it is, and a channel that was not cached is cached only with the parsed content of
  its file.
\<close>

definition reads_only :: "world \<Rightarrow> world \<Rightarrow> bool" where
  "reads_only w w' =
     (files w' = files w \<and> cacheDir w' = cacheDir w \<and> pluginId w' = pluginId w \<and>
      (\<forall>y e. channelCache w y = Some e \<longrightarrow> channelCache w' y = Some e) \<and>
      (\<forall>y e. channelCache w y = None \<and> channelCache w' y = Some e \<longrightarrow>
         (\<exists>d n. files w (channelPath w y) = Some (ChannelFile d) \<and>
            e = \<lparr>state = fst (JSON_parse n (state d)), metadata = metadata d\<rparr>)))"

text \<open>
  The event log the manager holds for a channel, as documents: the cached log, else
  the log in the file of the channel.
\<close>

definition stored_log :: "world \<Rightarrow> string \<Rightarrow> json StateEvent list option" where
  "stored_log w x =
     (case epicEventsCache w x of
        Some events \<Rightarrow> Some (map stringify_event events)
      | None \<Rightarrow>
          (case files w (epicEventsPath w x) of
             Some (EpicFile ds) \<Rightarrow> Some ds
           | _ \<Rightarrow> None))"

text \<open>
  A thread \<open>t\<close> that holds an event of its own, beside a parent \<open>c\<close> whose only event
  is later; and a parent log that was not written in order.
\<close>

definition diverged_world :: world where
  "diverged_world =
     newPluginStateManager ''cache'' ''p''
       [''cache/plugins/p/epic/c.json'' \<mapsto>
          EpicFile [\<lparr>messageId = ''m9'', timestamp = ''t9'', delta = JNum 1\<rparr>],
        ''cache/plugins/p/epic/t.json'' \<mapsto>
          EpicFile [\<lparr>messageId = ''m5'', timestamp = ''t5'', delta = JNum 1\<rparr>]]"

definition unsorted_world :: world where
  "unsorted_world =
     newPluginStateManager ''cache'' ''p''
       [''cache/plugins/p/epic/c.json'' \<mapsto>
          EpicFile [\<lparr>messageId = ''m3'', timestamp = ''t3'', delta = JNum 1\<rparr>,
                    \<lparr>messageId = ''m1'', timestamp = ''t1'', delta = JNum 1\<rparr>]]"

text \<open>A fresh manager of the plugin \<open>p\<close> over an empty disk.\<close>

definition fresh_world :: world where
  "fresh_world = newPluginStateManager ''cache'' ''p'' Map.empty"

text \<open>
  Identifiers that differ in case: two calls that record \<open>a\<close> and then \<open>B\<close> on a fresh
  manager, and a parent \<open>c\<close> whose log on disk holds the one event \<open>a\<close>.
\<close>

definition mixed_case_calls :: "(string \<times> string \<times> jsval \<times> string) list" where
  "mixed_case_calls = [(''c'', ''a'', VNum 1, ''t1''), (''c'', ''B'', VNum 2, ''t2'')]"

definition mixed_case_world :: world where
  "mixed_case_world =
     newPluginStateManager ''cache'' ''p''
       [''cache/plugins/p/epic/c.json'' \<mapsto>
          EpicFile [\<lparr>messageId = ''a'', timestamp = ''t1'', delta = JNum 1\<rparr>]]"

text \<open>
  What a read of channel state leaves alone: the event logs the manager holds in its
  cache and the cached global state; the lines logged are only added to.
\<close>

definition channel_read :: "world \<Rightarrow> world \<Rightarrow> bool" where
  "channel_read w w' =
     (epicEventsCache w' = epicEventsCache w \<and> globalCache w' = globalCache w \<and>
      (\<exists>l. logged w' = logged w @ l))"

section \<open>Depth calculation\<close>

lemma setPositions_absent: "k \<notin> set xs \<Longrightarrow> setPositions xs i m k = m k"
  by (induction xs arbitrary: i m) auto

lemma setPositions_present:
  "k \<in> set xs \<Longrightarrow> setPositions xs i m k = Some (i + last_index xs k)"
proof (induction xs arbitrary: i m)
  case Nil
  then show ?case by simp
next
  case (Cons x xs)
  show ?case
  proof (cases "k \<in> set xs")
    case True
    have "setPositions (x # xs) i m k = setPositions xs (Suc i) (m(x \<mapsto> i)) k"
      by simp
    also have "\<dots> = Some (Suc i + last_index xs k)"
      using True by (rule Cons.IH)
    finally show ?thesis using True by simp
  next
    case False
    with Cons.prems have "k = x" by simp
    with False show ?thesis by (simp add: setPositions_absent)
  qed
qed

lemma last_index_less: "k \<in> set xs \<Longrightarrow> last_index xs k < length xs"
  by (induction xs) auto

lemma last_index_nth: "k \<in> set xs \<Longrightarrow> xs ! last_index xs k = k"
  by (induction xs) auto

lemma last_index_last: "last_index xs k < j \<Longrightarrow> j < length xs \<Longrightarrow> xs ! j \<noteq> k"
proof (induction xs arbitrary: j)
  case Nil
  then show ?case by simp
next
  case (Cons x xs)
  from Cons.prems obtain j' where j: "j = Suc j'" by (cases j) auto
  show ?case
  proof (cases "k \<in> set xs")
    case True
    with Cons.prems j have "last_index xs k < j'" "j' < length xs" by auto
    then have "xs ! j' \<noteq> k" by (rule Cons.IH)
    with j show ?thesis by simp
  next
    case False
    from Cons.prems j have "xs ! j' \<in> set xs" by simp
    with False j show ?thesis by auto
  qed
qed

lemma messageIds_new: "messageIds (newPluginContextFactory ids) = ids"
  by (simp add: newPluginContextFactory_def)

lemma depth_eq:
  "calculateCurrentDepth (newPluginContextFactory ids) lastModifiedAt targetDepth =
     (case lastModifiedAt of
        None \<Rightarrow> targetDepth
      | Some m \<Rightarrow>
          if m = [] then targetDepth
          else if m \<in> set ids
          then min (int (length ids) - 1 - int (last_index ids m)) targetDepth
          else targetDepth)"
proof (cases lastModifiedAt)
  case None
  then show ?thesis by (simp add: calculateCurrentDepth_def named_def)
next
  case (Some m)
  show ?thesis
  proof (cases "m \<in> set ids")
    case True
    then have "messagePositions (newPluginContextFactory ids) m = Some (last_index ids m)"
      by (simp add: newPluginContextFactory_def setPositions_present)
    with True Some show ?thesis
      by (simp add: calculateCurrentDepth_def named_def messageIds_new)
  next
    case False
    then have "messagePositions (newPluginContextFactory ids) m = None"
      by (simp add: newPluginContextFactory_def setPositions_absent)
    with False Some show ?thesis
      by (simp add: calculateCurrentDepth_def named_def)
  qed
qed

text \<open>
  C4 (as amended). For the factory built over the list \<open>ids\<close> of length \<open>n\<close>:
  \<open>calculateCurrentDepth\<close> returns the target depth when \<open>lastModifiedAt\<close> is null, is
  the empty string or is not in the list, and otherwise the minimum of
  \<open>n - 1 - pos\<close> and the target depth, where \<open>pos = last_index ids m\<close> is the last
  position of \<open>lastModifiedAt\<close> in the list.
\<close>

theorem calculateCurrentDepth_amended:
  "calculateCurrentDepth (newPluginContextFactory ids) lastModifiedAt targetDepth =
     (case lastModifiedAt of
        None \<Rightarrow> targetDepth
      | Some m \<Rightarrow>
          if m = [] then targetDepth
          else if m \<in> set ids
          then min (int (length ids) - 1 - int (last_index ids m)) targetDepth
          else targetDepth)
   \<and> (\<forall>m. m \<in> set ids \<longrightarrow>
         last_index ids m < length ids \<and> ids ! last_index ids m = m \<and>
         (\<forall>j. last_index ids m < j \<and> j < length ids \<longrightarrow> ids ! j \<noteq> m))"
proof (intro conjI allI impI)
  fix m j
  assume "last_index ids m < j \<and> j < length ids"
  then show "ids ! j \<noteq> m" by (simp add: last_index_last)
qed (simp_all add: depth_eq last_index_less last_index_nth)

theorem calculateCurrentDepth_amended_witness:
  "calculateCurrentDepth (newPluginContextFactory [''a'', ''b'', ''c'', ''d'', ''e''])
     (Some ''c'') 1 = 1"
proof -
  have "calculateCurrentDepth (newPluginContextFactory [''a'', ''b'', ''c'', ''d'', ''e''])
     (Some ''c'') 1 =
     (case Some ''c'' of
        None \<Rightarrow> 1
      | Some m \<Rightarrow>
          if m = [] then 1
          else if m \<in> set [''a'', ''b'', ''c'', ''d'', ''e'']
          then min (int (length [''a'', ''b'', ''c'', ''d'', ''e'']) - 1
                 - int (last_index [''a'', ''b'', ''c'', ''d'', ''e''] m)) 1
          else 1)"
    by (rule calculateCurrentDepth_amended [THEN conjunct1])
  then show ?thesis by simp
qed

text \<open>
  C4 as stated fails on the empty string: it is in the list, at position 0 of 1, and
  the source returns the target depth 5 where the claim gives \<open>min (1 - 1 - 0) 5 = 0\<close>.
\<close>

theorem calculateCurrentDepth_counterexample:
  "calculateCurrentDepth (newPluginContextFactory ['''']) (Some '''') 5 = 5
   \<and> calculateCurrentDepth_claimed [''''] (Some '''') 5 = 0"
  by (simp add: calculateCurrentDepth_def named_def calculateCurrentDepth_claimed_def)

section \<open>The collation of the engine\<close>

lemma ascii_collation_le:
  "(ascii_collation a b \<le> 0) =
     (map to_lower a < map to_lower b \<or> (map to_lower a = map to_lower b \<and> b \<le> a))"
  by (auto simp: ascii_collation_def)

lemma consistent_ascii_collation: "consistent ascii_collation"
  unfolding consistent_def ascii_collation_le
proof (intro conjI allI impI)
  fix a b :: string
  show "(map to_lower a < map to_lower b \<or> map to_lower a = map to_lower b \<and> b \<le> a) \<or>
        (map to_lower b < map to_lower a \<or> map to_lower b = map to_lower a \<and> a \<le> b)"
    using linorder_less_linear [of "map to_lower a" "map to_lower b"] linorder_linear [of a b]
    by metis
next
  fix a b c :: string
  assume h: "(map to_lower a < map to_lower b \<or> map to_lower a = map to_lower b \<and> b \<le> a) \<and>
       (map to_lower b < map to_lower c \<or> map to_lower b = map to_lower c \<and> c \<le> b)"
  show "map to_lower a < map to_lower c \<or> map to_lower a = map to_lower c \<and> c \<le> a"
    using h by (metis order_less_trans order_trans)
qed

lemma lexicographic_on_ascii_collation:
  "lexicographic_on ascii_collation {s. map to_lower s = s}"
  unfolding lexicographic_on_def
proof (intro ballI)
  fix a b
  assume "a \<in> {s. map to_lower s = s}" "b \<in> {s. map to_lower s = s}"
  then have a: "map to_lower a = a" and b: "map to_lower b = b" by simp_all
  show "(ascii_collation a b \<le> 0) = (a \<le> b)"
    unfolding ascii_collation_le a b by auto
qed

lemma lexicographic_on_subset:
  "lexicographic_on cmp T \<Longrightarrow> S \<subseteq> T \<Longrightarrow> lexicographic_on cmp S"
  by (auto simp: lexicographic_on_def)

lemma to_lower_other:
  assumes "c \<notin> set ''ABCDEFGHIJKLMNOPQRSTUVWXYZ''"
  shows "to_lower c = c"
proof -
  have "length ''ABCDEFGHIJKLMNOPQRSTUVWXYZ'' = length ''abcdefghijklmnopqrstuvwxyz''" by simp
  from map_of_zip_is_None [OF this, of c] assms
  have "map_of (zip ''ABCDEFGHIJKLMNOPQRSTUVWXYZ'' ''abcdefghijklmnopqrstuvwxyz'') c = None"
    by blast
  then show ?thesis by (simp only: to_lower_def option.case)
qed

lemma digit_not_upper:
  "c \<in> set ''0123456789'' \<Longrightarrow> c \<notin> set ''ABCDEFGHIJKLMNOPQRSTUVWXYZ''"
  by auto

text \<open>
  The collation of the scenarios is consistent, and lexicographic on the identifiers
  made of digits only.
\<close>

lemma lexicographic_on_digits: "lexicographic_on ascii_collation {s. digits_only s}"
proof (rule lexicographic_on_subset [OF lexicographic_on_ascii_collation])
  show "{s. digits_only s} \<subseteq> {s. map to_lower s = s}"
  proof
    fix s
    assume "s \<in> {s. digits_only s}"
    then have "\<forall>c \<in> set s. to_lower c = c"
      unfolding digits_only_def using to_lower_other digit_not_upper by blast
    then have "map to_lower s = s" by (simp add: map_idI)
    then show "s \<in> {s. map to_lower s = s}" by simp
  qed
qed

lemma ascii_collation_mixed_case:
  "ascii_collation ''a'' ''B'' = - 1" "ascii_collation ''B'' ''a'' = 1"
  by (simp_all add: ascii_collation_def to_lower_def)

lemma ascii_collation_samples:
  "ascii_collation ''10'' ''9'' = - 1" "ascii_collation ''a'' ''A'' = - 1"
  "ascii_collation ''A'' ''b'' = - 1" "ascii_collation ''a1'' ''A0'' = 1"
  "ascii_collation ''ab'' ''a'' = 1" "ascii_collation ''1'' ''a'' = - 1"
  "ascii_collation ''m1'' [] = 1" "ascii_collation ''x'' ''x'' = 0"
  by (simp_all add: ascii_collation_def to_lower_def)

lemma collation_new: "collation (newPluginStateManager dir plugin disk) = ascii_collation"
  by (simp add: newPluginStateManager_def)

lemma collation_logger: "collation (logger lvl msg w) = collation w"
  by (simp add: logger_def)

lemma collation_getEpicEvents: "collation (snd (getEpicEvents c w)) = collation w"
  by (simp add: getEpicEvents_def split_beta split: option.splits stored_file.splits)

lemma collation_saveEpicEvents: "collation (saveEpicEvents c events w) = collation w"
  by (simp add: saveEpicEvents_def)

lemma collation_recordEpicEvent: "collation (snd (recordEpicEvent c m d now w)) = collation w"
proof (cases "getEpicEvents c w")
  case (Pair r w1)
  with collation_getEpicEvents [of c w] have "collation w1 = collation w" by simp
  with Pair show ?thesis
    by (cases r)
       (simp_all add: recordEpicEvent_def collation_logger collation_saveEpicEvents Let_def)
qed

lemma lexicographic_le:
  "lexicographic_on (collation w) S \<Longrightarrow> a \<in> S \<Longrightarrow> b \<in> S \<Longrightarrow>
   (localeCompare w a b \<le> 0) = (a \<le> b)"
  by (simp add: lexicographic_on_def localeCompare_def)

section \<open>Replay of an event log\<close>

lemma replay_fst:
  "fst (replay upTo live reducer events st w) =
     foldl reducer st
       (map delta
         (filter (\<lambda>e. case live of None \<Rightarrow> True | Some ids \<Rightarrow> messageId e \<in> ids)
           (takeWhile
              (\<lambda>e. case named upTo of None \<Rightarrow> True | Some u \<Rightarrow> collation w (messageId e) u \<le> 0)
              events)))"
  by (induction events arbitrary: st w)
     (auto simp: localeCompare_def collation_logger split: option.splits)

lemma replay_snd: "\<exists>l. snd (replay upTo live reducer events st w) = w\<lparr>logged := l\<rparr>"
proof (induction events arbitrary: st w)
  case Nil
  have "w = w\<lparr>logged := logged w\<rparr>" by simp
  then show ?case by (metis replay.simps(1) snd_conv)
next
  case (Cons event events)
  have skip: "\<exists>l. snd (replay upTo live reducer events st
              (logger LDebug ''Skipping epic event for deleted message'' w)) = w\<lparr>logged := l\<rparr>"
  proof -
    from Cons [of st "logger LDebug ''Skipping epic event for deleted message'' w"]
    obtain l where "snd (replay upTo live reducer events st
         (logger LDebug ''Skipping epic event for deleted message'' w))
       = (logger LDebug ''Skipping epic event for deleted message'' w)\<lparr>logged := l\<rparr>"
      by blast
    then show ?thesis by (auto simp: logger_def)
  qed
  have stop: "\<exists>l. w = w\<lparr>logged := l\<rparr>"
    by (rule exI [of _ "logged w"]) simp
  show ?case
    using skip stop Cons [of "reducer st (delta event)" w] by simp
qed

lemma getEpicState_fst:
  "fst (getEpicState channelId upTo live reducer w) =
     (case fst (getEpicEvents channelId w) of
        Inl e \<Rightarrow> Inl e
      | Inr events \<Rightarrow> Inr (replay_amended (collation w) upTo live reducer events))"
proof (cases "getEpicEvents channelId w")
  case (Pair r w1)
  with collation_getEpicEvents [of channelId w] have c: "collation w1 = collation w" by simp
  show ?thesis
  proof (cases r)
    case (Inl e)
    with Pair show ?thesis by (simp add: getEpicState_def)
  next
    case (Inr events)
    have "fst (replay upTo live reducer events VNull w1) =
        replay_amended (collation w) upTo live reducer events"
      by (simp only: replay_fst replay_amended_def c)
    with Pair Inr show ?thesis
      by (auto simp: getEpicState_def split: prod.splits)
  qed
qed

lemma getEpicState_snd:
  "\<exists>l. snd (getEpicState channelId upTo live reducer w) =
          (snd (getEpicEvents channelId w))\<lparr>logged := l\<rparr>"
proof (cases "getEpicEvents channelId w")
  case (Pair r w1)
  show ?thesis
  proof (cases r)
    case (Inl e)
    have "w1 = w1\<lparr>logged := logged w1\<rparr>" by simp
    then have "\<exists>l. w1 = w1\<lparr>logged := l\<rparr>" by (rule exI)
    with Pair Inl show ?thesis by (simp add: getEpicState_def)
  next
    case (Inr events)
    from replay_snd [of upTo live reducer events VNull w1]
    obtain l where "snd (replay upTo live reducer events VNull w1) = w1\<lparr>logged := l\<rparr>" ..
    with Pair Inr show ?thesis
      by (auto simp: getEpicState_def split: prod.splits)
  qed
qed

lemma replay_lexicographic:
  assumes "lexicographic_on cmp S" "messageId ` set events \<subseteq> S"
    and "\<forall>u. named upTo = Some u \<longrightarrow> u \<in> S"
  shows "replay_amended cmp upTo live reducer events =
         replay_claimed (named upTo) live reducer events"
proof -
  have "takeWhile (\<lambda>e. case named upTo of None \<Rightarrow> True | Some u \<Rightarrow> cmp (messageId e) u \<le> 0)
          events =
        takeWhile (\<lambda>e. case named upTo of None \<Rightarrow> True | Some u \<Rightarrow> messageId e \<le> u) events"
  proof (rule takeWhile_cong [OF refl])
    fix e
    assume "e \<in> set events"
    with assms(2) have "messageId e \<in> S" by auto
    with assms(1,3)
    show "(case named upTo of None \<Rightarrow> True | Some u \<Rightarrow> cmp (messageId e) u \<le> 0) =
          (case named upTo of None \<Rightarrow> True | Some u \<Rightarrow> messageId e \<le> u)"
      by (auto simp: lexicographic_on_def split: option.splits)
  qed
  then show ?thesis by (simp add: replay_amended_def replay_claimed_def)
qed

text \<open>
  C1 (as amended). For every event log, bound, live set and reducer: \<open>getEpicState\<close>
  folds the events of the log in stored order from the state \<open>null\<close>, stops before
  the first event whose message id \<open>localeCompare\<close> orders after the bound (there is no
  bound when \<open>upToMessageId\<close> is null or the empty string), skips the events whose
  message id is outside the live set when one is given, and returns the accumulated
  state; a log that cannot be read makes it fail with the error of the read. Beyond
  the read of the log it changes nothing but the lines logged. Where \<open>localeCompare\<close>
  is the lexicographic comparison of the identifiers of the log and of the bound, as
  it is on identifiers made of digits only, the event it stops before is the first
  one lexicographically greater than the bound.
\<close>

theorem getEpicState_amended:
  "fst (getEpicState channelId upTo live reducer w) =
     (case fst (getEpicEvents channelId w) of
        Inl e \<Rightarrow> Inl e
      | Inr events \<Rightarrow> Inr (replay_amended (collation w) upTo live reducer events))
   \<and> (\<exists>l. snd (getEpicState channelId upTo live reducer w) =
          (snd (getEpicEvents channelId w))\<lparr>logged := l\<rparr>)
   \<and> (\<forall>S events.
          lexicographic_on (collation w) S \<and> messageId ` set events \<subseteq> S \<and>
          (\<forall>u. named upTo = Some u \<longrightarrow> u \<in> S) \<longrightarrow>
          replay_amended (collation w) upTo live reducer events =
            replay_claimed (named upTo) live reducer events)"
proof (intro conjI allI impI)
  show "fst (getEpicState channelId upTo live reducer w) =
     (case fst (getEpicEvents channelId w) of
        Inl e \<Rightarrow> Inl e
      | Inr events \<Rightarrow> Inr (replay_amended (collation w) upTo live reducer events))"
    by (rule getEpicState_fst)
next
  show "\<exists>l. snd (getEpicState channelId upTo live reducer w) =
          (snd (getEpicEvents channelId w))\<lparr>logged := l\<rparr>"
    by (rule getEpicState_snd)
next
  fix S and events :: "jsval StateEvent list"
  assume a: "lexicographic_on (collation w) S \<and> messageId ` set events \<subseteq> S \<and>
          (\<forall>u. named upTo = Some u \<longrightarrow> u \<in> S)"
  from a have 1: "lexicographic_on (collation w) S" by (rule conjunct1)
  from a have 2: "messageId ` set events \<subseteq> S" by (rule conjunct2 [THEN conjunct1])
  from a have 3: "\<forall>u. named upTo = Some u \<longrightarrow> u \<in> S" by (rule conjunct2 [THEN conjunct2])
  from 1 2 3 show "replay_amended (collation w) upTo live reducer events =
            replay_claimed (named upTo) live reducer events"
    by (rule replay_lexicographic)
qed

lemma scenario_events:
  "getEpicEvents ''c'' scenario_world =
     (Inr [\<lparr>messageId = ''m1'', timestamp = ''t1'', delta = VNum 1\<rparr>,
           \<lparr>messageId = ''m2'', timestamp = ''t2'', delta = VNum 1\<rparr>,
           \<lparr>messageId = ''m3'', timestamp = ''t3'', delta = VNum 1\<rparr>],
      scenario_world\<lparr>epicEventsCache :=
        [''c'' \<mapsto> [\<lparr>messageId = ''m1'', timestamp = ''t1'', delta = VNum 1\<rparr>,
           \<lparr>messageId = ''m2'', timestamp = ''t2'', delta = VNum 1\<rparr>,
           \<lparr>messageId = ''m3'', timestamp = ''t3'', delta = VNum 1\<rparr>]]\<rparr>)"
  by (simp add: getEpicEvents_def scenario_world_def newPluginStateManager_def
      epicEventsPath_def path_join_def path_normalize_def scenario_log_def)

lemma scenario_collation: "collation scenario_world = ascii_collation"
  by (simp add: scenario_world_def collation_new)

lemma scenario_ids:
  "lexicographic_on ascii_collation {''m0'', ''m1'', ''m2'', ''m3'', ''m4''}"
  by (rule lexicographic_on_subset [OF lexicographic_on_ascii_collation])
     (simp add: to_lower_def)

theorem getEpicState_amended_witness:
  "fst (getEpicState ''c'' None (Some {''m1'', ''m3''}) counter_reducer scenario_world)
     = Inr (VNum 2)
   \<and> fst (getEpicState ''c'' (Some ''m2'') (Some {''m1'', ''m2'', ''m3''}) counter_reducer
        scenario_world) = Inr (VNum 2)
   \<and> fst (getEpicState ''c'' (Some '''') None counter_reducer scenario_world) = Inr (VNum 3)"
proof -
  let ?events = "[\<lparr>messageId = ''m1'', timestamp = ''t1'', delta = VNum 1\<rparr>,
           \<lparr>messageId = ''m2'', timestamp = ''t2'', delta = VNum 1\<rparr>,
           \<lparr>messageId = ''m3'', timestamp = ''t3'', delta = VNum 1\<rparr>]"
  let ?S = "{''m0'', ''m1'', ''m2'', ''m3'', ''m4''}"
  have l: "lexicographic_on (collation scenario_world) ?S"
    by (simp only: scenario_collation scenario_ids)
  have i: "messageId ` set ?events \<subseteq> ?S" by simp
  have r: "replay_amended (collation scenario_world) upTo live counter_reducer ?events =
      replay_claimed (named upTo) live counter_reducer ?events"
    if "\<forall>u. named upTo = Some u \<longrightarrow> u \<in> ?S" for upTo live
    using getEpicState_amended [of "''c''" upTo live counter_reducer scenario_world] l i that
    by blast
  have 1: "fst (getEpicState ''c'' None (Some {''m1'', ''m3''}) counter_reducer scenario_world)
     = Inr (VNum 2)"
    using getEpicState_amended [of "''c''" None "Some {''m1'', ''m3''}" counter_reducer
        scenario_world, THEN conjunct1]
      r [of None "Some {''m1'', ''m3''}"]
    by (simp add: scenario_events replay_claimed_def named_def)
  have 2: "fst (getEpicState ''c'' (Some ''m2'') (Some {''m1'', ''m2'', ''m3''}) counter_reducer
        scenario_world) = Inr (VNum 2)"
    using getEpicState_amended [of "''c''" "Some ''m2''" "Some {''m1'', ''m2'', ''m3''}"
        counter_reducer scenario_world, THEN conjunct1]
      r [of "Some ''m2''" "Some {''m1'', ''m2'', ''m3''}"]
    by (simp add: scenario_events replay_claimed_def named_def)
  have 3: "fst (getEpicState ''c'' (Some '''') None counter_reducer scenario_world) = Inr (VNum 3)"
    using getEpicState_amended [of "''c''" "Some ''''" None counter_reducer scenario_world,
        THEN conjunct1]
      r [of "Some ''''" None]
    by (simp add: scenario_events replay_claimed_def named_def)
  from 1 2 3 show ?thesis by blast
qed

text \<open>
  C1 as stated fails for the empty bound: it is not null, every message id of the
  scenario is greater than it, and the source replays all three events where the
  claim stops before the first. It fails too for identifiers that differ in case:
  with the log \<open>a\<close> and the bound \<open>B\<close> the one event is lexicographically greater than
  the bound, and the source replays it, \<open>localeCompare\<close> ordering \<open>a\<close> before \<open>B\<close>.
\<close>

theorem getEpicState_counterexample:
  "fst (getEpicState ''c'' (Some '''') None counter_reducer scenario_world) = Inr (VNum 3)
   \<and> (case fst (getEpicEvents ''c'' scenario_world) of
        Inl e \<Rightarrow> False
      | Inr events \<Rightarrow> replay_claimed (Some '''') None counter_reducer events = VNull)
   \<and> fst (getEpicState ''c'' (Some ''B'') None counter_reducer mixed_case_world) = Inr (VNum 1)
   \<and> (case fst (getEpicEvents ''c'' mixed_case_world) of
        Inl e \<Rightarrow> False
      | Inr events \<Rightarrow> replay_claimed (Some ''B'') None counter_reducer events = VNull)"
proof -
  have g: "fst (getEpicEvents ''c'' mixed_case_world) =
      Inr [\<lparr>messageId = ''a'', timestamp = ''t1'', delta = VNum 1\<rparr>]"
    by (simp add: getEpicEvents_def mixed_case_world_def newPluginStateManager_def
        epicEventsPath_def path_join_def path_normalize_def)
  have c: "collation mixed_case_world = ascii_collation"
    by (simp add: mixed_case_world_def collation_new)
  have 1: "fst (getEpicState ''c'' (Some '''') None counter_reducer scenario_world) = Inr (VNum 3)"
    by (simp add: getEpicState_fst scenario_events named_def replay_amended_def)
  have 2: "(case fst (getEpicEvents ''c'' scenario_world) of
        Inl e \<Rightarrow> False
      | Inr events \<Rightarrow> replay_claimed (Some '''') None counter_reducer events = VNull)"
    by (simp add: scenario_events replay_claimed_def)
  have 3: "fst (getEpicState ''c'' (Some ''B'') None counter_reducer mixed_case_world) =
      Inr (VNum 1)"
    by (simp add: getEpicState_fst g c named_def replay_amended_def ascii_collation_mixed_case)
  have 4: "(case fst (getEpicEvents ''c'' mixed_case_world) of
        Inl e \<Rightarrow> False
      | Inr events \<Rightarrow> replay_claimed (Some ''B'') None counter_reducer events = VNull)"
    by (simp add: g replay_claimed_def)
  from 1 2 3 4 show ?thesis by blast
qed

section \<open>Recording events\<close>

lemma set_insert_sorted: "set (insert_sorted cmp x ys) = insert x (set ys)"
  by (induction ys) auto

lemma set_array_sort: "set (array_sort cmp xs) = set xs"
  by (induction xs) (simp_all add: array_sort_def set_insert_sorted)

lemma distinct_insert_sorted:
  "distinct (map f (insert_sorted cmp x ys)) = (f x \<notin> f ` set ys \<and> distinct (map f ys))"
  by (induction ys) (auto simp: set_insert_sorted)

lemma distinct_array_sort: "distinct (map f (array_sort cmp xs)) = distinct (map f xs)"
proof (induction xs)
  case Nil
  show ?case by (simp add: array_sort_def)
next
  case (Cons x xs)
  have "array_sort cmp (x # xs) = insert_sorted cmp x (array_sort cmp xs)"
    by (simp add: array_sort_def)
  with Cons show ?case by (simp add: distinct_insert_sorted set_array_sort)
qed

lemma sorted_insert_sorted:
  assumes "consistent c" "sorted_wrt (\<lambda>a b. c (f a) (f b) \<le> 0) ys"
  shows "sorted_wrt (\<lambda>a b. c (f a) (f b) \<le> 0) (insert_sorted (\<lambda>a b. c (f a) (f b)) x ys)"
  using assms(2)
proof (induction ys)
  case Nil
  show ?case by simp
next
  case (Cons y ys)
  from assms(1) have total: "\<And>a b. c a b \<le> 0 \<or> c b a \<le> 0"
    and trans: "\<And>a b d. c a b \<le> 0 \<Longrightarrow> c b d \<le> 0 \<Longrightarrow> c a d \<le> 0"
    unfolding consistent_def by blast+
  from Cons.prems have y: "\<forall>z \<in> set ys. c (f y) (f z) \<le> 0"
    and ys: "sorted_wrt (\<lambda>a b. c (f a) (f b) \<le> 0) ys" by simp_all
  show ?case
  proof (cases "c (f x) (f y) \<le> 0")
    case True
    with y trans have "\<forall>z \<in> set ys. c (f x) (f z) \<le> 0" by blast
    with True Cons.prems show ?thesis by simp
  next
    case False
    with total have "c (f y) (f x) \<le> 0" by blast
    with y have "\<forall>z \<in> set (insert_sorted (\<lambda>a b. c (f a) (f b)) x ys). c (f y) (f z) \<le> 0"
      by (simp add: set_insert_sorted)
    with False Cons.IH [OF ys] show ?thesis by simp
  qed
qed

lemma sorted_array_sort:
  assumes "consistent c"
  shows "sorted_wrt (\<lambda>a b. c (f a) (f b) \<le> 0) (array_sort (\<lambda>a b. c (f a) (f b)) xs)"
proof (induction xs)
  case Nil
  show ?case by (simp add: array_sort_def)
next
  case (Cons x xs)
  have "array_sort (\<lambda>a b. c (f a) (f b)) (x # xs) =
      insert_sorted (\<lambda>a b. c (f a) (f b)) x (array_sort (\<lambda>a b. c (f a) (f b)) xs)"
    by (simp add: array_sort_def)
  with sorted_insert_sorted [OF assms Cons] show ?case by simp
qed

lemma filter_insert_sorted_other:
  "\<not> P x \<Longrightarrow> filter P (insert_sorted cmp x ys) = filter P ys"
  by (induction ys) simp_all

lemma filter_insert_sorted_one:
  "P x \<Longrightarrow> filter P ys = [] \<Longrightarrow> filter P (insert_sorted cmp x ys) = [x]"
proof (induction ys)
  case Nil
  then show ?case by simp
next
  case (Cons y ys)
  from Cons.prems(2) have "\<not> P y" and "filter P ys = []"
    by (simp_all split: if_splits)
  with Cons show ?case by simp
qed

lemma filter_foldr_insert_sorted:
  "filter P xs = [] \<Longrightarrow>
   filter P (foldr (insert_sorted cmp) xs acc) = filter P acc"
proof (induction xs)
  case Nil
  show ?case by simp
next
  case (Cons x xs)
  from Cons.prems have "\<not> P x" and "filter P xs = []"
    by (simp_all split: if_splits)
  with Cons.IH show ?case by (simp add: filter_insert_sorted_other)
qed

lemma filter_record:
  "filter (\<lambda>e. messageId e = m)
     (array_sort cmp
        (filter (\<lambda>e. messageId e \<noteq> m) events @ [\<lparr>messageId = m, timestamp = t, delta = d\<rparr>]))
   = [\<lparr>messageId = m, timestamp = t, delta = d\<rparr>]"
proof -
  have "filter (\<lambda>e. messageId e = m) (filter (\<lambda>e. messageId e \<noteq> m) events) = []"
    by (induction events) auto
  then have "filter (\<lambda>e. messageId e = m)
      (foldr (insert_sorted cmp) (filter (\<lambda>e. messageId e \<noteq> m) events)
         [\<lparr>messageId = m, timestamp = t, delta = d\<rparr>]) =
      filter (\<lambda>e. messageId e = m) [\<lparr>messageId = m, timestamp = t, delta = d\<rparr>]"
    by (rule filter_foldr_insert_sorted)
  then show ?thesis by (simp add: array_sort_def)
qed

lemma set_record:
  "set (array_sort cmp
        (filter (\<lambda>e. messageId e \<noteq> m) events @ [\<lparr>messageId = m, timestamp = t, delta = d\<rparr>]))
   = insert \<lparr>messageId = m, timestamp = t, delta = d\<rparr> {e \<in> set events. messageId e \<noteq> m}"
  by (auto simp: set_array_sort)

lemma distinct_record:
  assumes "distinct (map messageId events)"
  shows "distinct (map messageId (array_sort cmp
           (filter (\<lambda>e. messageId e \<noteq> m) events @ [\<lparr>messageId = m, timestamp = t, delta = d\<rparr>])))"
proof -
  let ?pushed = "filter (\<lambda>e. messageId e \<noteq> m) events @ [\<lparr>messageId = m, timestamp = t, delta = d\<rparr>]"
  from assms have "distinct (map messageId (filter (\<lambda>e. messageId e \<noteq> m) events))"
    by (simp add: distinct_map_filter)
  then have "distinct (map messageId ?pushed)" by auto
  then show ?thesis by (simp only: distinct_array_sort)
qed

lemma log_ok_record:
  assumes "consistent c" "log_ok c events"
  shows "log_ok c (array_sort (\<lambda>a b. c (messageId a) (messageId b))
           (filter (\<lambda>e. messageId e \<noteq> m) events @ [\<lparr>messageId = m, timestamp = t, delta = d\<rparr>]))"
proof -
  from assms(2) have "distinct (map messageId events)" by (simp add: log_ok_def)
  then have "distinct (map messageId (array_sort (\<lambda>a b. c (messageId a) (messageId b))
           (filter (\<lambda>e. messageId e \<noteq> m) events @ [\<lparr>messageId = m, timestamp = t, delta = d\<rparr>])))"
    by (rule distinct_record)
  with sorted_array_sort [OF assms(1), of messageId] show ?thesis
    unfolding log_ok_def by blast
qed

lemma parse_events_ids: "map messageId (fst (parse_events n ds)) = map messageId ds"
  by (induction ds arbitrary: n) (simp_all add: split_beta)

lemma stringify_events_ids: "map messageId (map stringify_event events) = map messageId events"
  by (induction events) (simp_all add: stringify_event_def)

lemma log_ok_ids:
  "log_ok c events =
     log_ok c (map (\<lambda>i. \<lparr>messageId = i, timestamp = [], delta = ()\<rparr>) (map messageId events))"
  by (simp add: log_ok_def sorted_wrt_map comp_def)

lemma log_ok_same_ids:
  "map messageId xs = map messageId ys \<Longrightarrow> log_ok c xs = log_ok c ys"
  using log_ok_ids [of c xs] log_ok_ids [of c ys] by simp

lemma log_ok_parse: "log_ok c ds \<Longrightarrow> log_ok c (fst (parse_events n ds))"
  using log_ok_same_ids [OF parse_events_ids] by blast

lemma log_ok_stringify: "log_ok c events \<Longrightarrow> log_ok c (map stringify_event events)"
  using log_ok_same_ids [OF stringify_events_ids] by blast

lemma log_ok_lexicographic:
  assumes "lexicographic_on c S" "messageId ` set events \<subseteq> S" "log_ok c events"
  shows "distinct (map messageId events) \<and> sorted (map messageId events)"
proof -
  from assms(3) have d: "distinct (map messageId events)"
    and s: "sorted_wrt (\<lambda>a b. c (messageId a) (messageId b) \<le> 0) events"
    by (simp_all add: log_ok_def)
  have "sorted_wrt (\<lambda>a b. messageId a \<le> messageId b) events"
  proof (rule sorted_wrt_mono_rel [OF _ s])
    fix a b
    assume "a \<in> set events" "b \<in> set events" "c (messageId a) (messageId b) \<le> 0"
    with assms(1,2) show "messageId a \<le> messageId b"
      unfolding lexicographic_on_def by blast
  qed
  then have "sorted (map messageId events)" by (simp add: sorted_map)
  with d show ?thesis by simp
qed

lemma store_ok_logger: "store_ok (logger lvl msg w) = store_ok w"
  by (simp add: store_ok_def logger_def)

lemma store_ok_getEpicEvents:
  assumes "store_ok w"
  shows "store_ok (snd (getEpicEvents c w))"
    and "fst (getEpicEvents c w) = Inr events \<Longrightarrow> log_ok (collation w) events"
proof -
  show "store_ok (snd (getEpicEvents c w))"
  proof (cases "epicEventsCache w c")
    case (Some cached)
    with assms show ?thesis by (simp add: getEpicEvents_def)
  next
    case None
    show ?thesis
    proof (cases "files w (epicEventsPath w c)")
      case fNone: None
      with None assms show ?thesis by (simp add: getEpicEvents_def)
    next
      case (Some f)
      show ?thesis
      proof (cases f)
        case (EpicFile ds)
        with Some assms have "log_ok (collation w) ds" by (auto simp: store_ok_def)
        then have "log_ok (collation w) (fst (parse_events (nextObject w) ds))"
          by (rule log_ok_parse)
        with None Some EpicFile assms show ?thesis
          by (auto simp: getEpicEvents_def store_ok_def split: prod.splits)
      qed (use None Some assms in \<open>simp_all add: getEpicEvents_def\<close>)
    qed
  qed
next
  assume r: "fst (getEpicEvents c w) = Inr events"
  show "log_ok (collation w) events"
  proof (cases "epicEventsCache w c")
    case (Some cached)
    with assms r show ?thesis by (auto simp: getEpicEvents_def store_ok_def)
  next
    case None
    show ?thesis
    proof (cases "files w (epicEventsPath w c)")
      case fNone: None
      with None r show ?thesis by (auto simp: getEpicEvents_def log_ok_def)
    next
      case (Some f)
      show ?thesis
      proof (cases f)
        case (EpicFile ds)
        with Some assms have "log_ok (collation w) ds" by (auto simp: store_ok_def)
        then have "log_ok (collation w) (fst (parse_events (nextObject w) ds))"
          by (rule log_ok_parse)
        with None Some EpicFile r show ?thesis
          by (auto simp: getEpicEvents_def split: prod.splits)
      qed (use None Some r in \<open>simp_all add: getEpicEvents_def\<close>)
    qed
  qed
qed

lemma store_ok_saveEpicEvents:
  assumes "store_ok w" "log_ok (collation w) events"
  shows "store_ok (saveEpicEvents c events w)"
proof -
  from assms(2) have "log_ok (collation w) (map stringify_event events)"
    by (rule log_ok_stringify)
  with assms show ?thesis by (auto simp: store_ok_def saveEpicEvents_def)
qed

lemma store_ok_recordEpicEvent:
  assumes "consistent (collation w)" "store_ok w"
  shows "store_ok (snd (recordEpicEvent c m d now w))"
proof (cases "getEpicEvents c w")
  case (Pair r w1)
  from assms(2) have w1: "store_ok w1" using store_ok_getEpicEvents(1) [of w c] Pair by simp
  from collation_getEpicEvents [of c w] Pair have cw: "collation w1 = collation w" by simp
  show ?thesis
  proof (cases r)
    case (Inl e)
    with Pair w1 show ?thesis by (simp add: recordEpicEvent_def)
  next
    case (Inr events)
    with assms(2) Pair have "log_ok (collation w) events"
      using store_ok_getEpicEvents(2) [of w c events] by simp
    with assms(1)
    have "log_ok (collation w) (array_sort (\<lambda>a b. collation w (messageId a) (messageId b))
           (filter (\<lambda>e. messageId e \<noteq> m) events @ [\<lparr>messageId = m, timestamp = now, delta = d\<rparr>]))"
      by (rule log_ok_record)
    with w1 cw have "store_ok (saveEpicEvents c
         (array_sort (\<lambda>a b. collation w (messageId a) (messageId b))
           (filter (\<lambda>e. messageId e \<noteq> m) events @ [\<lparr>messageId = m, timestamp = now, delta = d\<rparr>]))
         w1)"
      by (simp add: store_ok_saveEpicEvents)
    with Pair Inr show ?thesis
      by (simp add: recordEpicEvent_def store_ok_logger localeCompare_def)
  qed
qed

lemma collation_recordAll: "collation (recordAll calls w) = collation w"
proof (induction calls arbitrary: w)
  case Nil
  show ?case by simp
next
  case (Cons call calls)
  obtain c m d now where call: "call = (c, m, d, now)" by (cases call) auto
  from Cons [of "snd (recordEpicEvent c m d now w)"] call show ?case
    by (simp add: collation_recordEpicEvent)
qed

lemma store_ok_recordAll:
  "consistent (collation w) \<Longrightarrow> store_ok w \<Longrightarrow> store_ok (recordAll calls w)"
proof (induction calls arbitrary: w)
  case Nil
  then show ?case by simp
next
  case (Cons call calls)
  obtain c m d now where call: "call = (c, m, d, now)" by (cases call) auto
  from Cons.prems have s: "store_ok (snd (recordEpicEvent c m d now w))"
    by (rule store_ok_recordEpicEvent)
  from Cons.prems(1) have "consistent (collation (snd (recordEpicEvent c m d now w)))"
    by (simp add: collation_recordEpicEvent)
  then have "store_ok (recordAll calls (snd (recordEpicEvent c m d now w)))"
    using s by (rule Cons.IH)
  with call show ?case by simp
qed

lemma recordEpicEvent_log:
  assumes "recordEpicEvent c m d now w = (Inr (), w')"
  shows "\<exists>events events'.
           fst (getEpicEvents c w) = Inr events \<and>
           events' = array_sort (\<lambda>a b. collation w (messageId a) (messageId b))
             (filter (\<lambda>e. messageId e \<noteq> m) events @ [\<lparr>messageId = m, timestamp = now, delta = d\<rparr>]) \<and>
           epicEventsCache w' c = Some events' \<and>
           files w' (epicEventsPath w' c) = Some (EpicFile (map stringify_event events'))"
proof (cases "getEpicEvents c w")
  case (Pair r w1)
  show ?thesis
  proof (cases r)
    case (Inl e)
    with Pair assms show ?thesis by (simp add: recordEpicEvent_def)
  next
    case (Inr events)
    with Pair assms show ?thesis
      by (auto simp: recordEpicEvent_def saveEpicEvents_def logger_def epicEventsPath_def Let_def
          localeCompare_def)
  qed
qed

lemma store_ok_new: "store_ok (newPluginStateManager dir plugin Map.empty)"
  by (simp add: store_ok_def newPluginStateManager_def)

text \<open>
  C2 (as amended). Every sequence of \<open>recordEpicEvent\<close> calls on an engine whose
  comparison is consistent keeps the invariant that each stored log has at most one
  event per message id and is sorted by message id in the order of \<open>localeCompare\<close>,
  and a store that holds no event log has it. After a call that
  returns, the log of the channel, in the cache and in its file, holds exactly one
  event for the message id written, the new one, in place of any event the id had,
  and beside it the events the log had for the other ids; it has at most one event
  per message id if the log had, and it is sorted in the order of \<open>localeCompare\<close>
  when that comparison is consistent. A log with the invariant is sorted in ascending
  lexicographic order where \<open>localeCompare\<close> is the lexicographic comparison of its
  identifiers, as it is on identifiers made of digits only.
\<close>

theorem recordEpicEvent_invariant:
  "(consistent (collation w) \<and> store_ok w \<longrightarrow> store_ok (recordAll calls w)) \<and>
   ((\<forall>x. epicEventsCache w x = None) \<and> (\<forall>p ds. files w p \<noteq> Some (EpicFile ds)) \<longrightarrow>
      store_ok w) \<and>
   (\<forall>w'. recordEpicEvent c m d now w = (Inr (), w') \<longrightarrow>
      (\<exists>events events'.
         fst (getEpicEvents c w) = Inr events \<and>
         epicEventsCache w' c = Some events' \<and>
         files w' (epicEventsPath w' c) = Some (EpicFile (map stringify_event events')) \<and>
         filter (\<lambda>e. messageId e = m) events' = [\<lparr>messageId = m, timestamp = now, delta = d\<rparr>] \<and>
         set events' =
           insert \<lparr>messageId = m, timestamp = now, delta = d\<rparr>
             {e \<in> set events. messageId e \<noteq> m} \<and>
         (distinct (map messageId events) \<longrightarrow> distinct (map messageId events')) \<and>
         (consistent (collation w) \<longrightarrow>
            sorted_wrt (\<lambda>a b. localeCompare w (messageId a) (messageId b) \<le> 0) events'))) \<and>
   (\<forall>S x events.
      lexicographic_on (collation w) S \<and> store_ok w \<and> epicEventsCache w x = Some events \<and>
      messageId ` set events \<subseteq> S \<longrightarrow>
      distinct (map messageId events) \<and> sorted (map messageId events))"
proof (intro conjI allI impI)
  assume "consistent (collation w) \<and> store_ok w"
  then show "store_ok (recordAll calls w)" using store_ok_recordAll by blast
next
  assume "(\<forall>x. epicEventsCache w x = None) \<and> (\<forall>p ds. files w p \<noteq> Some (EpicFile ds))"
  then show "store_ok w" by (simp add: store_ok_def)
next
  fix w'
  assume "recordEpicEvent c m d now w = (Inr (), w')"
  then obtain events events' where
    e: "fst (getEpicEvents c w) = Inr events"
    and e': "events' = array_sort (\<lambda>a b. collation w (messageId a) (messageId b))
             (filter (\<lambda>e. messageId e \<noteq> m) events @ [\<lparr>messageId = m, timestamp = now, delta = d\<rparr>])"
    and c: "epicEventsCache w' c = Some events'"
    and f: "files w' (epicEventsPath w' c) = Some (EpicFile (map stringify_event events'))"
    using recordEpicEvent_log by blast
  have o: "filter (\<lambda>e. messageId e = m) events' = [\<lparr>messageId = m, timestamp = now, delta = d\<rparr>]"
    unfolding e' by (rule filter_record)
  have t: "set events' =
           insert \<lparr>messageId = m, timestamp = now, delta = d\<rparr>
             {e \<in> set events. messageId e \<noteq> m}"
    unfolding e' by (rule set_record)
  have d: "distinct (map messageId events) \<longrightarrow> distinct (map messageId events')"
    unfolding e' by (rule impI) (rule distinct_record)
  have s: "consistent (collation w) \<longrightarrow>
            sorted_wrt (\<lambda>a b. localeCompare w (messageId a) (messageId b) \<le> 0) events'"
    unfolding e' localeCompare_def by (rule impI) (rule sorted_array_sort)
  from e c f o t d s show "\<exists>events events'.
         fst (getEpicEvents c w) = Inr events \<and>
         epicEventsCache w' c = Some events' \<and>
         files w' (epicEventsPath w' c) = Some (EpicFile (map stringify_event events')) \<and>
         filter (\<lambda>e. messageId e = m) events' = [\<lparr>messageId = m, timestamp = now, delta = d\<rparr>] \<and>
         set events' =
           insert \<lparr>messageId = m, timestamp = now, delta = d\<rparr>
             {e \<in> set events. messageId e \<noteq> m} \<and>
         (distinct (map messageId events) \<longrightarrow> distinct (map messageId events')) \<and>
         (consistent (collation w) \<longrightarrow>
            sorted_wrt (\<lambda>a b. localeCompare w (messageId a) (messageId b) \<le> 0) events')"
    by blast
next
  fix S x and events :: "jsval StateEvent list"
  assume a: "lexicographic_on (collation w) S \<and> store_ok w \<and> epicEventsCache w x = Some events \<and>
      messageId ` set events \<subseteq> S"
  then have "log_ok (collation w) events" by (auto simp: store_ok_def)
  with a have "distinct (map messageId events) \<and> sorted (map messageId events)"
    using log_ok_lexicographic [of "collation w" S events] by blast
  then show "distinct (map messageId events)" and "sorted (map messageId events)" by simp_all
qed

lemma scenario_calls_log:
  "epicEventsCache (recordAll scenario_calls (newPluginStateManager ''cache'' ''p'' Map.empty)) ''c''
     = Some [\<lparr>messageId = ''m1'', timestamp = ''t4'', delta = VNum 7\<rparr>,
             \<lparr>messageId = ''m2'', timestamp = ''t3'', delta = VNum 2\<rparr>,
             \<lparr>messageId = ''m3'', timestamp = ''t1'', delta = VNum 3\<rparr>]"
  by (simp add: scenario_calls_def recordEpicEvent_def getEpicEvents_def saveEpicEvents_def
      logger_def newPluginStateManager_def epicEventsPath_def path_join_def path_normalize_def
      array_sort_def localeCompare_def ascii_collation_def to_lower_def)

lemma scenario_first_call:
  "fst (recordEpicEvent ''c'' ''m1'' (VNum 1) ''t'' (newPluginStateManager ''cache'' ''p'' Map.empty))
     = Inr ()"
  by (simp add: recordEpicEvent_def getEpicEvents_def newPluginStateManager_def)

theorem recordEpicEvent_invariant_witness:
  "store_ok (newPluginStateManager ''cache'' ''p'' Map.empty) \<and>
   fst (recordEpicEvent ''c'' ''m1'' (VNum 1) ''t'' (newPluginStateManager ''cache'' ''p'' Map.empty))
     = Inr () \<and>
   store_ok (recordAll scenario_calls (newPluginStateManager ''cache'' ''p'' Map.empty)) \<and>
   epicEventsCache (recordAll scenario_calls (newPluginStateManager ''cache'' ''p'' Map.empty)) ''c''
     = Some [\<lparr>messageId = ''m1'', timestamp = ''t4'', delta = VNum 7\<rparr>,
             \<lparr>messageId = ''m2'', timestamp = ''t3'', delta = VNum 2\<rparr>,
             \<lparr>messageId = ''m3'', timestamp = ''t1'', delta = VNum 3\<rparr>] \<and>
   sorted (map messageId
     [\<lparr>messageId = ''m1'', timestamp = ''t4'', delta = VNum 7\<rparr>,
      \<lparr>messageId = ''m2'', timestamp = ''t3'', delta = VNum 2\<rparr>,
      \<lparr>messageId = ''m3'', timestamp = ''t1'', delta = VNum 3\<rparr>])"
proof -
  let ?w = "newPluginStateManager ''cache'' ''p'' Map.empty"
  let ?log = "[\<lparr>messageId = ''m1'', timestamp = ''t4'', delta = VNum 7\<rparr>,
             \<lparr>messageId = ''m2'', timestamp = ''t3'', delta = VNum 2\<rparr>,
             \<lparr>messageId = ''m3'', timestamp = ''t1'', delta = VNum 3\<rparr>]"
  let ?S = "{''m0'', ''m1'', ''m2'', ''m3'', ''m4''}"
  have k: "consistent (collation ?w)"
    by (simp only: collation_new consistent_ascii_collation)
  have n: "(\<forall>x. epicEventsCache ?w x = None) \<and> (\<forall>p ds. files ?w p \<noteq> Some (EpicFile ds))"
    by (simp add: newPluginStateManager_def)
  note t = recordEpicEvent_invariant [of ?w scenario_calls "''c''" "''m1''" "VNum 1" "''t''"]
  from t n have 1: "store_ok ?w" by blast
  from t k 1 have 3: "store_ok (recordAll scenario_calls ?w)" by blast
  have l: "lexicographic_on (collation (recordAll scenario_calls ?w)) ?S"
    by (simp only: collation_recordAll collation_new scenario_ids)
  have i: "messageId ` set ?log \<subseteq> ?S" by simp
  from recordEpicEvent_invariant [of "recordAll scenario_calls ?w" "[]" "''c''" "''m1''"
      "VNum 1" "''t''"] l 3 scenario_calls_log i
  have 5: "sorted (map messageId ?log)" by blast
  from 1 scenario_first_call 3 scenario_calls_log 5 show ?thesis by blast
qed

text \<open>
  C2 as stated fails for identifiers that differ in case: \<open>localeCompare\<close> orders \<open>a\<close>
  before \<open>B\<close>, so after recording \<open>a\<close> and then \<open>B\<close> the log holds \<open>a\<close> before \<open>B\<close>, which
  is not ascending lexicographic order.
\<close>

theorem recordEpicEvent_counterexample:
  "epicEventsCache (recordAll mixed_case_calls (newPluginStateManager ''cache'' ''p'' Map.empty))
     ''c''
     = Some [\<lparr>messageId = ''a'', timestamp = ''t1'', delta = VNum 1\<rparr>,
             \<lparr>messageId = ''B'', timestamp = ''t2'', delta = VNum 2\<rparr>] \<and>
   \<not> sorted (map messageId
     [\<lparr>messageId = ''a'', timestamp = ''t1'', delta = VNum 1\<rparr>,
      \<lparr>messageId = ''B'', timestamp = ''t2'', delta = VNum 2\<rparr>])"
  by (simp add: mixed_case_calls_def recordEpicEvent_def getEpicEvents_def saveEpicEvents_def
      logger_def newPluginStateManager_def epicEventsPath_def path_join_def path_normalize_def
      array_sort_def localeCompare_def ascii_collation_mixed_case)

section \<open>Global and channel state\<close>

declare getChannelState.simps [simp del]

lemma logger_fields:
  "cacheDir (logger lvl msg w) = cacheDir w"
  "pluginId (logger lvl msg w) = pluginId w"
  "files (logger lvl msg w) = files w"
  "nextObject (logger lvl msg w) = nextObject w"
  "globalCache (logger lvl msg w) = globalCache w"
  "channelCache (logger lvl msg w) = channelCache w"
  "epicEventsCache (logger lvl msg w) = epicEventsCache w"
  by (simp_all add: logger_def)

lemma stringify_parse: "JSON_stringify (fst (JSON_parse n d)) = d"
  by (cases d) simp_all

lemma getChannelState_cached:
  "channelCache w c = Some r \<Longrightarrow> getChannelState c inh w = (Inr r, w)"
  by (subst getChannelState.simps) simp

lemma getChannelState_file:
  "channelCache w c = None \<Longrightarrow> files w (channelPath w c) = Some (ChannelFile d) \<Longrightarrow>
   getChannelState c inh w =
     (Inr \<lparr>state = fst (JSON_parse (nextObject w) (state d)), metadata = metadata d\<rparr>,
      w\<lparr>nextObject := snd (JSON_parse (nextObject w) (state d)),
        channelCache := (channelCache w)
          (c \<mapsto> \<lparr>state = fst (JSON_parse (nextObject w) (state d)), metadata = metadata d\<rparr>)\<rparr>)"
  by (subst getChannelState.simps) (simp add: split_beta Let_def)

lemma getChannelState_unreadable:
  "channelCache w c = None \<Longrightarrow> files w (channelPath w c) = Some f \<Longrightarrow>
   (\<forall>d. f \<noteq> ChannelFile d) \<Longrightarrow>
   getChannelState c inh w = (Inl CorruptData, logger LError ''Failed to read channel state'' w)"
  by (subst getChannelState.simps) (cases f; simp)

lemma getChannelState_missing:
  "channelCache w c = None \<Longrightarrow> files w (channelPath w c) = None \<Longrightarrow>
   getChannelState c None w = (Inr noState, w)"
  by (subst getChannelState.simps) (simp add: named_def historyOrigin_of_def parent_of_def)

lemma globalPath_update:
  "globalPath (logger lvl msg w) = globalPath w"
  "globalPath (w\<lparr>files := fs, globalCache := g\<rparr>) = globalPath w"
  by (simp_all add: globalPath_def logger_def)

lemma getGlobalState_setGlobalState:
  "fst (getGlobalState (snd (setGlobalState v w))) = Inr v"
proof (cases "v = VNull")
  case True
  then show ?thesis
    by (simp add: getGlobalState_def setGlobalState_def logger_fields globalPath_update)
next
  case False
  then show ?thesis
    by (simp add: getGlobalState_def setGlobalState_def logger_fields)
qed

lemma setChannelState_result:
  assumes "getChannelState c None w = (Inr existing, w1)"
  shows "setChannelState c v m w =
     (Inr (),
      logger LDebug ''Saved channel state''
        (w1\<lparr>files := (files w1)(channelPath w1 c \<mapsto>
               ChannelFile \<lparr>state = JSON_stringify v,
                 metadata = (metadata existing)\<lparr>lastModifiedMessageId :=
                   (case named m of Some x \<Rightarrow> Some x
                    | None \<Rightarrow> lastModifiedMessageId (metadata existing))\<rparr>\<rparr>),
            channelCache := (channelCache w1)
              (c \<mapsto> \<lparr>state = v,
                 metadata = (metadata existing)\<lparr>lastModifiedMessageId :=
                   (case named m of Some x \<Rightarrow> Some x
                    | None \<Rightarrow> lastModifiedMessageId (metadata existing))\<rparr>\<rparr>)\<rparr>))"
  using assms by (simp add: setChannelState_def Let_def)

lemma setChannelState_fails:
  assumes "getChannelState c None w = (Inl e, w1)"
  shows "setChannelState c v m w = (Inl e, w1)"
  using assms by (simp add: setChannelState_def)

text \<open>
  C7. For every blob \<open>v\<close>: \<open>getGlobalState\<close> after \<open>setGlobalState v\<close> returns \<open>v\<close>, and
  \<open>getChannelState\<close> on a channel after a \<open>setChannelState\<close> of \<open>v\<close> on it that returned
  gives the state \<open>v\<close>, with or without inheritance information.
  \<open>setChannelState\<close> returns on every channel that the manager holds in its cache,
  that has a channel document for its file, or that has no file.
\<close>

theorem state_round_trip:
  "fst (getGlobalState (snd (setGlobalState v w))) = Inr v \<and>
   (\<forall>w'. setChannelState channelId v msgId w = (Inr (), w') \<longrightarrow>
      (\<exists>md. getChannelState channelId inheritFrom w' = (Inr \<lparr>state = v, metadata = md\<rparr>, w'))) \<and>
   ((\<exists>r. channelCache w channelId = Some r) \<or>
    files w (channelPath w channelId) = None \<or>
    (\<exists>d. files w (channelPath w channelId) = Some (ChannelFile d)) \<longrightarrow>
      fst (setChannelState channelId v msgId w) = Inr ())"
proof (intro conjI allI impI)
  show "fst (getGlobalState (snd (setGlobalState v w))) = Inr v"
    by (rule getGlobalState_setGlobalState)
next
  fix w'
  assume s: "setChannelState channelId v msgId w = (Inr (), w')"
  obtain r w1 where g: "getChannelState channelId None w = (r, w1)"
    by (cases "getChannelState channelId None w")
  show "\<exists>md. getChannelState channelId inheritFrom w' = (Inr \<lparr>state = v, metadata = md\<rparr>, w')"
  proof (cases r)
    case (Inl e)
    with g s show ?thesis by (simp add: setChannelState_fails)
  next
    case (Inr existing)
    with g have "setChannelState channelId v msgId w = (Inr (),
      logger LDebug ''Saved channel state''
        (w1\<lparr>files := (files w1)(channelPath w1 channelId \<mapsto>
               ChannelFile \<lparr>state = JSON_stringify v,
                 metadata = (metadata existing)\<lparr>lastModifiedMessageId :=
                   (case named msgId of Some x \<Rightarrow> Some x
                    | None \<Rightarrow> lastModifiedMessageId (metadata existing))\<rparr>\<rparr>),
            channelCache := (channelCache w1)
              (channelId \<mapsto> \<lparr>state = v,
                 metadata = (metadata existing)\<lparr>lastModifiedMessageId :=
                   (case named msgId of Some x \<Rightarrow> Some x
                    | None \<Rightarrow> lastModifiedMessageId (metadata existing))\<rparr>\<rparr>)\<rparr>))"
      by (simp add: setChannelState_result)
    with s have "channelCache w' channelId =
       Some \<lparr>state = v,
                 metadata = (metadata existing)\<lparr>lastModifiedMessageId :=
                   (case named msgId of Some x \<Rightarrow> Some x
                    | None \<Rightarrow> lastModifiedMessageId (metadata existing))\<rparr>\<rparr>"
      by (auto simp: logger_fields)
    then show ?thesis by (simp add: getChannelState_cached)
  qed
next
  assume a: "(\<exists>r. channelCache w channelId = Some r) \<or>
    files w (channelPath w channelId) = None \<or>
    (\<exists>d. files w (channelPath w channelId) = Some (ChannelFile d))"
  have "\<exists>existing w1. getChannelState channelId None w = (Inr existing, w1)"
  proof (cases "channelCache w channelId")
    case (Some r)
    then show ?thesis by (simp add: getChannelState_cached)
  next
    case None
    with a have "files w (channelPath w channelId) = None \<or>
        (\<exists>d. files w (channelPath w channelId) = Some (ChannelFile d))"
      by simp
    then show ?thesis
    proof
      assume "files w (channelPath w channelId) = None"
      with None show ?thesis by (simp add: getChannelState_missing)
    next
      assume "\<exists>d. files w (channelPath w channelId) = Some (ChannelFile d)"
      then obtain d where "files w (channelPath w channelId) = Some (ChannelFile d)" ..
      with None show ?thesis by (simp add: getChannelState_file)
    qed
  qed
  then obtain existing w1 where "getChannelState channelId None w = (Inr existing, w1)"
    by blast
  then show "fst (setChannelState channelId v msgId w) = Inr ()"
    by (simp add: setChannelState_result)
qed

theorem state_round_trip_witness:
  "fst (setChannelState ''c'' (VObj 1 [(''counter'', JNum 5)]) (Some ''m1'')
          (newPluginStateManager ''cache'' ''p'' Map.empty)) = Inr () \<and>
   (\<exists>md. fst (getChannelState ''c'' None
           (snd (setChannelState ''c'' (VObj 1 [(''counter'', JNum 5)]) (Some ''m1'')
              (newPluginStateManager ''cache'' ''p'' Map.empty))))
         = Inr \<lparr>state = VObj 1 [(''counter'', JNum 5)], metadata = md\<rparr>) \<and>
   fst (getGlobalState (snd (setGlobalState VNull
          (newPluginStateManager ''cache'' ''p'' Map.empty)))) = Inr VNull"
proof -
  let ?w = "newPluginStateManager ''cache'' ''p'' Map.empty"
  let ?v = "VObj 1 [(''counter'', JNum 5)]"
  let ?s = "setChannelState ''c'' ?v (Some ''m1'') ?w"
  note t = state_round_trip [of ?v ?w "''c''" "Some ''m1''" None]
  have "files ?w (channelPath ?w ''c'') = None"
    by (simp add: newPluginStateManager_def)
  with t have ok: "fst ?s = Inr ()" by blast
  then have "?s = (Inr (), snd ?s)" by (simp add: prod_eq_iff)
  with t obtain md where
    "getChannelState ''c'' None (snd ?s) = (Inr \<lparr>state = ?v, metadata = md\<rparr>, snd ?s)"
    by blast
  then have "\<exists>md. fst (getChannelState ''c'' None (snd ?s)) = Inr \<lparr>state = ?v, metadata = md\<rparr>"
    by auto
  moreover from state_round_trip [of VNull ?w "''c''" "Some ''m1''" None]
  have "fst (getGlobalState (snd (setGlobalState VNull ?w))) = Inr VNull" by blast
  ultimately show ?thesis using ok by blast
qed

section \<open>Inheritance of channel state\<close>

lemma getChannelState_inherit:
  assumes "channelCache w c = None" "files w (channelPath w c) = None"
  shows "getChannelState c inh w =
     (let tryParent = (\<lambda>w1.
            (case named (parent_of inh) of
               Some parentId \<Rightarrow>
                 (case getChannelState parentId None w1 of
                    (Inl e, w2) \<Rightarrow> (Inl e, w2)
                  | (Inr parent, w2) \<Rightarrow>
                      if truthy (state parent) then
                        (Inr \<lparr>state = state parent,
                              metadata = (metadata parent)\<lparr>parentChannelId := Some parentId\<rparr>\<rparr>,
                         logger LDebug ''Inheriting channel state from parent channel'' w2)
                      else (Inr noState, w2))
             | None \<Rightarrow> (Inr noState, w1)))
      in (case named (historyOrigin_of inh) of
            Some originId \<Rightarrow>
              (case getChannelState originId None w of
                 (Inl e, w1) \<Rightarrow> (Inl e, w1)
               | (Inr origin, w1) \<Rightarrow>
                   if truthy (state origin) then
                     (Inr \<lparr>state = state origin,
                           metadata = (metadata origin)\<lparr>historyOriginChannelId := Some originId\<rparr>\<rparr>,
                      logger LDebug ''Inheriting channel state from .history origin'' w1)
                   else tryParent w1)
          | None \<Rightarrow> tryParent w))"
  using assms by (subst getChannelState.simps) simp

lemma inherit_origin:
  assumes "channelCache w c = None" "files w (channelPath w c) = None"
    and "named (historyOrigin_of inh) = Some originId"
    and "getChannelState originId None w = (Inr origin, w1)"
    and "truthy (state origin)"
  shows "getChannelState c inh w =
     (Inr \<lparr>state = state origin,
           metadata = (metadata origin)\<lparr>historyOriginChannelId := Some originId\<rparr>\<rparr>,
      logger LDebug ''Inheriting channel state from .history origin'' w1)"
  using assms by (simp add: getChannelState_inherit)

lemma inherit_after_origin:
  assumes "channelCache w c = None" "files w (channelPath w c) = None"
    and "skipped (historyOrigin_of inh) w w1"
  shows "getChannelState c inh w =
     (case named (parent_of inh) of
        Some parentId \<Rightarrow>
          (case getChannelState parentId None w1 of
             (Inl e, w2) \<Rightarrow> (Inl e, w2)
           | (Inr parent, w2) \<Rightarrow>
               if truthy (state parent) then
                 (Inr \<lparr>state = state parent,
                       metadata = (metadata parent)\<lparr>parentChannelId := Some parentId\<rparr>\<rparr>,
                  logger LDebug ''Inheriting channel state from parent channel'' w2)
               else (Inr noState, w2))
      | None \<Rightarrow> (Inr noState, w1))"
proof (cases "named (historyOrigin_of inh)")
  case None
  with assms(3) have eq: "w1 = w" by (simp add: skipped_def)
  from None assms(1,2) show ?thesis unfolding eq by (simp add: getChannelState_inherit)
next
  case (Some originId)
  with assms(3) obtain r where "getChannelState originId None w = (Inr r, w1)" "\<not> truthy (state r)"
    by (auto simp: skipped_def)
  with Some assms(1,2) show ?thesis by (simp add: getChannelState_inherit)
qed

lemma inherit_parent:
  assumes "channelCache w c = None" "files w (channelPath w c) = None"
    and "skipped (historyOrigin_of inh) w w1"
    and "named (parent_of inh) = Some parentId"
    and "getChannelState parentId None w1 = (Inr parent, w2)"
    and "truthy (state parent)"
  shows "getChannelState c inh w =
     (Inr \<lparr>state = state parent,
           metadata = (metadata parent)\<lparr>parentChannelId := Some parentId\<rparr>\<rparr>,
      logger LDebug ''Inheriting channel state from parent channel'' w2)"
  using assms(4,5,6) by (simp add: inherit_after_origin [OF assms(1,2,3)])

lemma inherit_nothing:
  assumes "channelCache w c = None" "files w (channelPath w c) = None"
    and "skipped (historyOrigin_of inh) w w1"
    and "skipped (parent_of inh) w1 w2"
  shows "getChannelState c inh w = (Inr noState, w2)"
proof (cases "named (parent_of inh)")
  case None
  with assms(4) show ?thesis
    by (simp add: inherit_after_origin [OF assms(1,2,3)] skipped_def)
next
  case (Some parentId)
  with assms(4) obtain r where "getChannelState parentId None w1 = (Inr r, w2)" "\<not> truthy (state r)"
    by (auto simp: skipped_def)
  with Some show ?thesis by (simp add: inherit_after_origin [OF assms(1,2,3)])
qed

lemma truthy_read_is_stored:
  assumes "fst (getChannelState x None w) = Inr r" "truthy (state r)"
  shows "has_stored_state w x"
proof (cases "channelCache w x")
  case (Some cached)
  then show ?thesis by (simp add: has_stored_state_def)
next
  case None
  show ?thesis
  proof (cases "files w (channelPath w x)")
    case fNone: None
    with None assms show ?thesis by (auto simp: getChannelState_missing noState_def)
  next
    case (Some f)
    show ?thesis
    proof (cases "\<exists>d. f = ChannelFile d")
      case True
      with None Some show ?thesis by (auto simp: has_stored_state_def)
    next
      case False
      with None Some assms show ?thesis by (simp add: getChannelState_unreadable)
    qed
  qed
qed

text \<open>
  C5 (as amended). For a \<open>getChannelState\<close> call on a channel with no stored state: if
  the inheritance names a non-empty \<open>historyOriginChannelId\<close> and the read of that
  channel returns a truthy blob (not null, false, 0 or the empty string), that blob
  is returned with the metadata of that channel, its \<open>lastModifiedMessageId\<close> among
  them, and \<open>historyOriginChannelId\<close> recorded; otherwise, if it names a non-empty
  \<open>parentChannelId\<close> whose read returns a truthy blob, that blob is returned with
  \<open>parentChannelId\<close> recorded; otherwise the result is null with
  \<open>lastModifiedMessageId\<close> null. A read returns a truthy blob only for a channel that
  has stored state.
\<close>

theorem getChannelState_inheritance:
  assumes "channelCache w c = None" and "files w (channelPath w c) = None"
  shows
    "(\<forall>originId origin w1.
        named (historyOrigin_of inh) = Some originId \<and>
        getChannelState originId None w = (Inr origin, w1) \<and> truthy (state origin) \<longrightarrow>
        fst (getChannelState c inh w) =
          Inr \<lparr>state = state origin,
                metadata = (metadata origin)\<lparr>historyOriginChannelId := Some originId\<rparr>\<rparr>) \<and>
     (\<forall>w1 parentId parent w2.
        skipped (historyOrigin_of inh) w w1 \<and> named (parent_of inh) = Some parentId \<and>
        getChannelState parentId None w1 = (Inr parent, w2) \<and> truthy (state parent) \<longrightarrow>
        fst (getChannelState c inh w) =
          Inr \<lparr>state = state parent,
                metadata = (metadata parent)\<lparr>parentChannelId := Some parentId\<rparr>\<rparr>) \<and>
     (\<forall>w1 w2.
        skipped (historyOrigin_of inh) w w1 \<and> skipped (parent_of inh) w1 w2 \<longrightarrow>
        fst (getChannelState c inh w) = Inr noState) \<and>
     (\<forall>x r. fst (getChannelState x None w) = Inr r \<and> truthy (state r) \<longrightarrow> has_stored_state w x)"
proof (intro conjI allI impI)
  fix originId origin w1
  assume "named (historyOrigin_of inh) = Some originId \<and>
        getChannelState originId None w = (Inr origin, w1) \<and> truthy (state origin)"
  then show "fst (getChannelState c inh w) =
          Inr \<lparr>state = state origin,
                metadata = (metadata origin)\<lparr>historyOriginChannelId := Some originId\<rparr>\<rparr>"
    using inherit_origin [OF assms, of inh originId origin w1] by simp
next
  fix w1 parentId parent w2
  assume "skipped (historyOrigin_of inh) w w1 \<and> named (parent_of inh) = Some parentId \<and>
        getChannelState parentId None w1 = (Inr parent, w2) \<and> truthy (state parent)"
  then show "fst (getChannelState c inh w) =
          Inr \<lparr>state = state parent,
                metadata = (metadata parent)\<lparr>parentChannelId := Some parentId\<rparr>\<rparr>"
    using inherit_parent [OF assms, of inh w1 parentId parent w2] by simp
next
  fix w1 w2
  assume "skipped (historyOrigin_of inh) w w1 \<and> skipped (parent_of inh) w1 w2"
  then show "fst (getChannelState c inh w) = Inr noState"
    using inherit_nothing [OF assms, of inh w1 w2] by simp
next
  fix x r
  assume "fst (getChannelState x None w) = Inr r \<and> truthy (state r)"
  then show "has_stored_state w x" using truthy_read_is_stored by blast
qed

lemma lineage_world_fields:
  "channelCache lineage_world = Map.empty"
  "cacheDir lineage_world = ''cache''"
  "pluginId lineage_world = ''p''"
  "nextObject lineage_world = 0"
  "files lineage_world =
     [''cache/plugins/p/channel/P.json'' \<mapsto>
          ChannelFile \<lparr>state = JObj [(''counter'', JNum 5)],
            metadata = \<lparr>lastModifiedMessageId = Some ''m1'', parentChannelId = None,
                        historyOriginChannelId = None\<rparr>\<rparr>,
        ''cache/plugins/p/channel/H.json'' \<mapsto>
          ChannelFile \<lparr>state = JObj [(''counter'', JNum 9)],
            metadata = \<lparr>lastModifiedMessageId = Some ''m7'', parentChannelId = None,
                        historyOriginChannelId = None\<rparr>\<rparr>]"
  by (simp_all add: lineage_world_def newPluginStateManager_def)

lemma lineage_paths:
  "channelPath lineage_world ''C'' = ''cache/plugins/p/channel/C.json''"
  "channelPath lineage_world ''P'' = ''cache/plugins/p/channel/P.json''"
  "channelPath lineage_world ''H'' = ''cache/plugins/p/channel/H.json''"
  by (simp_all add: channelPath_def lineage_world_fields path_join_def path_normalize_def)

lemma lineage_read_H:
  "fst (getChannelState ''H'' None lineage_world) =
     Inr \<lparr>state = VObj 0 [(''counter'', JNum 9)],
          metadata = \<lparr>lastModifiedMessageId = Some ''m7'', parentChannelId = None,
                      historyOriginChannelId = None\<rparr>\<rparr>"
  by (subst getChannelState_file [where d = "\<lparr>state = JObj [(''counter'', JNum 9)],
            metadata = \<lparr>lastModifiedMessageId = Some ''m7'', parentChannelId = None,
                        historyOriginChannelId = None\<rparr>\<rparr>"])
     (simp_all add: lineage_world_fields lineage_paths)

lemma lineage_read_P:
  "fst (getChannelState ''P'' None lineage_world) =
     Inr \<lparr>state = VObj 0 [(''counter'', JNum 5)],
          metadata = \<lparr>lastModifiedMessageId = Some ''m1'', parentChannelId = None,
                      historyOriginChannelId = None\<rparr>\<rparr>"
  by (subst getChannelState_file [where d = "\<lparr>state = JObj [(''counter'', JNum 5)],
            metadata = \<lparr>lastModifiedMessageId = Some ''m1'', parentChannelId = None,
                        historyOriginChannelId = None\<rparr>\<rparr>"])
     (simp_all add: lineage_world_fields lineage_paths)

theorem getChannelState_inheritance_witness:
  "channelCache lineage_world ''C'' = None \<and>
   files lineage_world (channelPath lineage_world ''C'') = None \<and>
   fst (getChannelState ''C''
     (Some \<lparr>inh_parentChannelId = Some ''P'', inh_historyOriginChannelId = Some ''H''\<rparr>)
     lineage_world) =
     Inr \<lparr>state = VObj 0 [(''counter'', JNum 9)],
          metadata = \<lparr>lastModifiedMessageId = Some ''m7'', parentChannelId = None,
                      historyOriginChannelId = Some ''H''\<rparr>\<rparr> \<and>
   fst (getChannelState ''C''
     (Some \<lparr>inh_parentChannelId = Some ''P'', inh_historyOriginChannelId = None\<rparr>)
     lineage_world) =
     Inr \<lparr>state = VObj 0 [(''counter'', JNum 5)],
          metadata = \<lparr>lastModifiedMessageId = Some ''m1'', parentChannelId = Some ''P'',
                      historyOriginChannelId = None\<rparr>\<rparr> \<and>
   fst (getChannelState ''C'' None lineage_world) = Inr noState"
proof -
  let ?both = "Some \<lparr>inh_parentChannelId = Some ''P'', inh_historyOriginChannelId = Some ''H''\<rparr>"
  let ?par = "Some \<lparr>inh_parentChannelId = Some ''P'', inh_historyOriginChannelId = None\<rparr>"
  have c: "channelCache lineage_world ''C'' = None"
    by (simp add: lineage_world_fields)
  have f: "files lineage_world (channelPath lineage_world ''C'') = None"
    by (simp add: lineage_world_fields lineage_paths)
  obtain wH where h: "getChannelState ''H'' None lineage_world =
     (Inr \<lparr>state = VObj 0 [(''counter'', JNum 9)],
          metadata = \<lparr>lastModifiedMessageId = Some ''m7'', parentChannelId = None,
                      historyOriginChannelId = None\<rparr>\<rparr>, wH)"
    using lineage_read_H by (cases "getChannelState ''H'' None lineage_world") simp
  obtain wP where p: "getChannelState ''P'' None lineage_world =
     (Inr \<lparr>state = VObj 0 [(''counter'', JNum 5)],
          metadata = \<lparr>lastModifiedMessageId = Some ''m1'', parentChannelId = None,
                      historyOriginChannelId = None\<rparr>\<rparr>, wP)"
    using lineage_read_P by (cases "getChannelState ''P'' None lineage_world") simp
  have n1: "named (historyOrigin_of ?both) = Some ''H''"
    by (simp add: named_def historyOrigin_of_def)
  have n2: "named (parent_of ?par) = Some ''P''"
    by (simp add: named_def parent_of_def)
  have s2: "skipped (historyOrigin_of ?par) lineage_world lineage_world"
    by (simp add: skipped_def named_def historyOrigin_of_def)
  have s3: "skipped (historyOrigin_of None) lineage_world lineage_world"
    "skipped (parent_of None) lineage_world lineage_world"
    by (simp_all add: skipped_def named_def historyOrigin_of_def parent_of_def)
  from getChannelState_inheritance [OF c f, of ?both] n1 h
  have 1: "fst (getChannelState ''C'' ?both lineage_world) =
     Inr \<lparr>state = VObj 0 [(''counter'', JNum 9)],
          metadata = \<lparr>lastModifiedMessageId = Some ''m7'', parentChannelId = None,
                      historyOriginChannelId = Some ''H''\<rparr>\<rparr>"
    by fastforce
  from getChannelState_inheritance [OF c f, of ?par] n2 s2 p
  have 2: "fst (getChannelState ''C'' ?par lineage_world) =
     Inr \<lparr>state = VObj 0 [(''counter'', JNum 5)],
          metadata = \<lparr>lastModifiedMessageId = Some ''m1'', parentChannelId = Some ''P'',
                      historyOriginChannelId = None\<rparr>\<rparr>"
    by fastforce
  from getChannelState_inheritance [OF c f, of None] s3
  have 3: "fst (getChannelState ''C'' None lineage_world) = Inr noState"
    by blast
  from c f 1 2 3 show ?thesis by blast
qed

lemma zero_world_eq:
  "zero_world =
     \<lparr>cacheDir = ''cache'', pluginId = ''p'', collation = ascii_collation,
      files = [''cache/plugins/p/channel/H.json'' \<mapsto>
                 ChannelFile \<lparr>state = JNum 0,
                   metadata = \<lparr>lastModifiedMessageId = Some ''m1'', parentChannelId = None,
                               historyOriginChannelId = None\<rparr>\<rparr>],
      nextObject = 0, globalCache = VNull,
      channelCache = [''H'' \<mapsto> \<lparr>state = VNum 0,
                   metadata = \<lparr>lastModifiedMessageId = Some ''m1'', parentChannelId = None,
                               historyOriginChannelId = None\<rparr>\<rparr>],
      epicEventsCache = Map.empty,
      logged = [(LDebug, ''Saved channel state'')]\<rparr>"
proof -
  let ?w = "newPluginStateManager ''cache'' ''p'' Map.empty"
  have "getChannelState ''H'' None ?w = (Inr noState, ?w)"
    by (rule getChannelState_missing) (simp_all add: newPluginStateManager_def)
  then show ?thesis
    by (simp add: zero_world_def setChannelState_result noState_def named_def logger_def
        newPluginStateManager_def channelPath_def path_join_def path_normalize_def)
qed

text \<open>
  C5 as stated fails for a falsy blob: the history origin \<open>H\<close> has the stored state
  \<open>0\<close>, written by \<open>setChannelState\<close>, and the child that names it receives null.
\<close>

theorem getChannelState_inheritance_counterexample:
  "has_stored_state zero_world ''H'' \<and>
   fst (getChannelState ''H'' None zero_world) =
     Inr \<lparr>state = VNum 0,
          metadata = \<lparr>lastModifiedMessageId = Some ''m1'', parentChannelId = None,
                      historyOriginChannelId = None\<rparr>\<rparr> \<and>
   channelCache zero_world ''C'' = None \<and>
   files zero_world (channelPath zero_world ''C'') = None \<and>
   fst (getChannelState ''C''
     (Some \<lparr>inh_parentChannelId = None, inh_historyOriginChannelId = Some ''H''\<rparr>)
     zero_world) = Inr noState"
proof -
  let ?inh = "Some \<lparr>inh_parentChannelId = None, inh_historyOriginChannelId = Some ''H''\<rparr>"
  have cH: "channelCache zero_world ''H'' = Some \<lparr>state = VNum 0,
                   metadata = \<lparr>lastModifiedMessageId = Some ''m1'', parentChannelId = None,
                               historyOriginChannelId = None\<rparr>\<rparr>"
    by (simp add: zero_world_eq)
  then have rH: "getChannelState ''H'' None zero_world =
     (Inr \<lparr>state = VNum 0,
          metadata = \<lparr>lastModifiedMessageId = Some ''m1'', parentChannelId = None,
                      historyOriginChannelId = None\<rparr>\<rparr>, zero_world)"
    by (rule getChannelState_cached)
  have c: "channelCache zero_world ''C'' = None" by (simp add: zero_world_eq)
  have f: "files zero_world (channelPath zero_world ''C'') = None"
    by (simp add: zero_world_eq channelPath_def path_join_def path_normalize_def)
  have s1: "skipped (historyOrigin_of ?inh) zero_world zero_world"
    using rH by (simp add: skipped_def named_def historyOrigin_of_def)
  have s2: "skipped (parent_of ?inh) zero_world zero_world"
    by (simp add: skipped_def named_def parent_of_def)
  have "getChannelState ''C'' ?inh zero_world = (Inr noState, zero_world)"
    using c f s1 s2 by (rule inherit_nothing)
  with cH rH c f show ?thesis by (simp add: has_stored_state_def)
qed

section \<open>Writes to a child and the state of its parent\<close>

lemma reads_only_refl: "reads_only w w"
  by (auto simp: reads_only_def)

lemma reads_only_path: "reads_only w w' \<Longrightarrow> channelPath w' x = channelPath w x"
  by (simp add: reads_only_def channelPath_def)

lemma reads_only_trans:
  assumes "reads_only w w1" "reads_only w1 w2"
  shows "reads_only w w2"
proof -
  have p: "\<And>x. channelPath w1 x = channelPath w x" using assms(1) by (rule reads_only_path)
  from assms(1) have f: "files w1 = files w" by (simp add: reads_only_def)
  have keep: "channelCache w2 y = Some e" if "channelCache w y = Some e" for y e
    using that assms by (simp add: reads_only_def)
  have new: "\<exists>d n. files w (channelPath w y) = Some (ChannelFile d) \<and>
            e = \<lparr>state = fst (JSON_parse n (state d)), metadata = metadata d\<rparr>"
    if n: "channelCache w y = None" and s: "channelCache w2 y = Some e" for y e
  proof (cases "channelCache w1 y")
    case None
    with s assms(2) have "\<exists>d n. files w1 (channelPath w1 y) = Some (ChannelFile d) \<and>
            e = \<lparr>state = fst (JSON_parse n (state d)), metadata = metadata d\<rparr>"
      unfolding reads_only_def by blast
    with f p show ?thesis by simp
  next
    case (Some e1)
    with assms(2) have "channelCache w2 y = Some e1" by (simp add: reads_only_def)
    with s have "e1 = e" by simp
    with Some n assms(1) show ?thesis unfolding reads_only_def by blast
  qed
  from assms keep new show ?thesis unfolding reads_only_def by auto
qed

lemma reads_only_logger: "reads_only w w' \<Longrightarrow> reads_only w (logger lvl msg w')"
  by (simp add: reads_only_def logger_fields)

lemma getChannelState_direct_reads_only: "reads_only w (snd (getChannelState x None w))"
proof (cases "channelCache w x")
  case (Some r)
  then show ?thesis by (simp add: getChannelState_cached reads_only_refl)
next
  case None
  show ?thesis
  proof (cases "files w (channelPath w x)")
    case fNone: None
    with None show ?thesis by (simp add: getChannelState_missing reads_only_refl)
  next
    case (Some f)
    show ?thesis
    proof (cases "\<exists>d. f = ChannelFile d")
      case True
      then obtain d where "f = ChannelFile d" ..
      with None Some show ?thesis
        by (auto simp: getChannelState_file reads_only_def)
    next
      case False
      with None Some show ?thesis
        by (simp add: getChannelState_unreadable reads_only_logger reads_only_refl)
    qed
  qed
qed

lemma getChannelState_reads_only: "reads_only w (snd (getChannelState c inh w))"
proof (cases "channelCache w c")
  case (Some r)
  then show ?thesis by (simp add: getChannelState_cached reads_only_refl)
next
  case None
  show ?thesis
  proof (cases "files w (channelPath w c)")
    case (Some f)
    show ?thesis
    proof (cases "\<exists>d. f = ChannelFile d")
      case True
      then obtain d where "f = ChannelFile d" ..
      with None Some show ?thesis
        by (auto simp: getChannelState_file reads_only_def)
    next
      case False
      with None Some show ?thesis
        by (simp add: getChannelState_unreadable reads_only_logger reads_only_refl)
    qed
  next
    case fNone: None
    have par: "reads_only w (snd (case named (parent_of inh) of
        Some parentId \<Rightarrow>
          (case getChannelState parentId None w1 of
             (Inl e, w2) \<Rightarrow> (Inl e, w2)
           | (Inr parent, w2) \<Rightarrow>
               if truthy (state parent) then
                 (Inr \<lparr>state = state parent,
                       metadata = (metadata parent)\<lparr>parentChannelId := Some parentId\<rparr>\<rparr>,
                  logger LDebug ''Inheriting channel state from parent channel'' w2)
               else (Inr noState, w2))
      | None \<Rightarrow> (Inr noState, w1)))" if w1: "reads_only w w1" for w1
    proof (cases "named (parent_of inh)")
      case None
      with w1 show ?thesis by simp
    next
      case (Some parentId)
      obtain r w2 where g: "getChannelState parentId None w1 = (r, w2)"
        by (cases "getChannelState parentId None w1")
      with getChannelState_direct_reads_only [of w1 parentId] have "reads_only w1 w2" by simp
      with w1 have "reads_only w w2" by (rule reads_only_trans)
      with Some g show ?thesis by (cases r) (simp_all add: reads_only_logger)
    qed
    show ?thesis
    proof (cases "named (historyOrigin_of inh)")
      case oNone: None
      with None fNone par [OF reads_only_refl] show ?thesis
        by (simp add: getChannelState_inherit)
    next
      case (Some originId)
      obtain r w1 where g: "getChannelState originId None w = (r, w1)"
        by (cases "getChannelState originId None w")
      with getChannelState_direct_reads_only [of w originId] have w1: "reads_only w w1" by simp
      show ?thesis
      proof (cases r)
        case (Inl e)
        with None fNone Some g w1 show ?thesis by (simp add: getChannelState_inherit)
      next
        case (Inr origin)
        with None fNone Some g w1 par [OF w1] show ?thesis
          by (simp add: getChannelState_inherit reads_only_logger)
      qed
    qed
  qed
qed

lemma reads_only_stored_blob:
  assumes "reads_only w w'"
  shows "stored_blob w' y = stored_blob w y"
proof (cases "channelCache w y")
  case (Some e)
  with assms have "channelCache w' y = Some e" by (simp add: reads_only_def)
  with Some show ?thesis by (simp add: stored_blob_def)
next
  case None
  from assms have f: "files w' = files w" and p: "channelPath w' y = channelPath w y"
    by (simp_all add: reads_only_def channelPath_def)
  show ?thesis
  proof (cases "channelCache w' y")
    case n': None
    with None f p show ?thesis by (simp add: stored_blob_def)
  next
    case (Some e)
    with None assms obtain d n where "files w (channelPath w y) = Some (ChannelFile d)"
      "e = \<lparr>state = fst (JSON_parse n (state d)), metadata = metadata d\<rparr>"
      unfolding reads_only_def by blast
    with None Some show ?thesis by (simp add: stored_blob_def stringify_parse)
  qed
qed

lemma reads_only_unstored:
  assumes "reads_only w w'" "channelCache w c = None" "files w (channelPath w c) = None"
  shows "channelCache w' c = None \<and> files w' (channelPath w' c) = None"
proof -
  from assms(1) have f: "files w' = files w" and p: "channelPath w' c = channelPath w c"
    by (simp_all add: reads_only_def channelPath_def)
  have "channelCache w' c = None"
  proof (cases "channelCache w' c")
    case (Some e)
    with assms(1,2) obtain d where "files w (channelPath w c) = Some (ChannelFile d)"
      unfolding reads_only_def by blast
    with assms(3) show ?thesis by simp
  qed simp
  with f p assms(3) show ?thesis by simp
qed

lemma stored_blob_read:
  assumes "stored_blob w p = Some v"
  shows "\<exists>r. fst (getChannelState p inh w) = Inr r \<and> JSON_stringify (state r) = v"
proof (cases "channelCache w p")
  case (Some r)
  with assms show ?thesis by (simp add: getChannelState_cached stored_blob_def)
next
  case None
  with assms obtain d where "files w (channelPath w p) = Some (ChannelFile d)" "state d = v"
    by (auto simp: stored_blob_def split: option.splits stored_file.splits)
  with None show ?thesis by (simp add: getChannelState_file stringify_parse)
qed

lemma setChannelState_unstored:
  assumes "channelCache w c = None" "files w (channelPath w c) = None"
    and "stored_blob w p = Some v"
  shows "stored_blob (snd (setChannelState c new m w)) p = Some v"
proof -
  have g: "getChannelState c None w = (Inr noState, w)"
    using assms(1,2) by (rule getChannelState_missing)
  have pc: "p \<noteq> c" using assms by (auto simp: stored_blob_def)
  show ?thesis
  proof (cases "channelCache w p")
    case (Some r)
    with assms(3) pc show ?thesis
      by (simp add: setChannelState_result [OF g] stored_blob_def logger_fields)
  next
    case None
    with assms(3) obtain d where d: "files w (channelPath w p) = Some (ChannelFile d)" "state d = v"
      by (auto simp: stored_blob_def split: option.splits stored_file.splits)
    with assms(2) have "channelPath w p \<noteq> channelPath w c" by auto
    with None d pc show ?thesis
      by (simp add: setChannelState_result [OF g] stored_blob_def logger_fields
          channelPath_def logger_def)
  qed
qed

lemma read_truthy_cached:
  assumes "getChannelState x None w = (Inr r, w')" "truthy (state r)"
  shows "channelCache w' x = Some r"
proof (cases "channelCache w x")
  case (Some cached)
  with assms show ?thesis by (simp add: getChannelState_cached)
next
  case None
  show ?thesis
  proof (cases "files w (channelPath w x)")
    case fNone: None
    with None assms show ?thesis by (auto simp: getChannelState_missing noState_def)
  next
    case (Some f)
    show ?thesis
    proof (cases "\<exists>d. f = ChannelFile d")
      case True
      then obtain d where "f = ChannelFile d" ..
      with None Some assms show ?thesis by (auto simp: getChannelState_file)
    next
      case False
      with None Some assms show ?thesis by (simp add: getChannelState_unreadable)
    qed
  qed
qed

lemma inherited_is_cached:
  assumes "channelCache w c = None" "files w (channelPath w c) = None"
    and "getChannelState c inh w = (Inr r, w')" "truthy (state r)"
  shows "\<exists>x cached.
           (named (historyOrigin_of inh) = Some x \<or> named (parent_of inh) = Some x) \<and>
           channelCache w' x = Some cached \<and> state cached = state r"
proof -
  have par: ?thesis
    if sk: "skipped (historyOrigin_of inh) w w1" for w1
  proof (cases "named (parent_of inh)")
    case None
    with assms(3,4) show ?thesis
      by (auto simp: inherit_after_origin [OF assms(1,2) sk] noState_def)
  next
    case (Some parentId)
    obtain rp w2 where g: "getChannelState parentId None w1 = (rp, w2)"
      by (cases "getChannelState parentId None w1")
    show ?thesis
    proof (cases rp)
      case (Inl e)
      with Some g assms(3) show ?thesis
        by (simp add: inherit_after_origin [OF assms(1,2) sk])
    next
      case (Inr parent)
      show ?thesis
      proof (cases "truthy (state parent)")
        case True
        with g Inr have "channelCache w2 parentId = Some parent"
          by (simp add: read_truthy_cached)
        moreover from Some g Inr True assms(3)
        have "state r = state parent"
          "w' = logger LDebug ''Inheriting channel state from parent channel'' w2"
          by (auto simp: inherit_after_origin [OF assms(1,2) sk])
        ultimately show ?thesis using Some by (auto simp: logger_fields)
      next
        case False
        with Some g Inr assms(3,4) show ?thesis
          by (auto simp: inherit_after_origin [OF assms(1,2) sk] noState_def)
      qed
    qed
  qed
  show ?thesis
  proof (cases "named (historyOrigin_of inh)")
    case None
    then have "skipped (historyOrigin_of inh) w w" by (simp add: skipped_def)
    then show ?thesis by (rule par)
  next
    case (Some originId)
    obtain ro w1 where g: "getChannelState originId None w = (ro, w1)"
      by (cases "getChannelState originId None w")
    show ?thesis
    proof (cases ro)
      case (Inl e)
      with Some g assms(1,2,3) show ?thesis by (simp add: getChannelState_inherit)
    next
      case (Inr origin)
      show ?thesis
      proof (cases "truthy (state origin)")
        case True
        with g Inr have "channelCache w1 originId = Some origin"
          by (simp add: read_truthy_cached)
        moreover from Some g Inr True assms(3)
        have "state r = state origin"
          "w' = logger LDebug ''Inheriting channel state from .history origin'' w1"
          by (auto simp: inherit_origin [OF assms(1,2) Some _ True])
        ultimately show ?thesis using Some by (auto simp: logger_fields)
      next
        case False
        with Some g Inr have "skipped (historyOrigin_of inh) w w1"
          by (auto simp: skipped_def)
        then show ?thesis by (rule par)
      qed
    qed
  qed
qed

text \<open>
  C6 (as amended). For every parent channel with stored blob \<open>v\<close> and every child
  channel without stored state: reading the state of the child through
  \<open>getChannelState\<close> with inheritance and then calling \<open>setChannelState\<close> on the child
  with a new blob, which returns, leaves the parent as it was: the blob stored for
  the parent is still \<open>v\<close> and a subsequent read of the parent returns \<open>v\<close>. A truthy
  state returned to the child is the state the cache holds for the channel it was
  inherited from: the same value and, for an object, the same object.
\<close>

theorem inherited_write_leaves_parent:
  assumes "channelCache w c = None" and "files w (channelPath w c) = None"
    and "stored_blob w p = Some v"
  shows "stored_blob (snd (setChannelState c new m (snd (getChannelState c inh w)))) p = Some v \<and>
         (\<exists>r. fst (getChannelState p None
                 (snd (setChannelState c new m (snd (getChannelState c inh w))))) = Inr r \<and>
              JSON_stringify (state r) = v) \<and>
         fst (setChannelState c new m (snd (getChannelState c inh w))) = Inr () \<and>
         (\<forall>r. fst (getChannelState c inh w) = Inr r \<and> truthy (state r) \<longrightarrow>
            (\<exists>x cached.
               (named (historyOrigin_of inh) = Some x \<or> named (parent_of inh) = Some x) \<and>
               channelCache (snd (getChannelState c inh w)) x = Some cached \<and>
               state cached = state r))"
proof -
  let ?w1 = "snd (getChannelState c inh w)"
  have r: "reads_only w ?w1" by (rule getChannelState_reads_only)
  then have u: "channelCache ?w1 c = None" "files ?w1 (channelPath ?w1 c) = None"
    using assms(1,2) reads_only_unstored by blast+
  from r assms(3) have b: "stored_blob ?w1 p = Some v" by (simp add: reads_only_stored_blob)
  have 1: "stored_blob (snd (setChannelState c new m ?w1)) p = Some v"
    using u b by (rule setChannelState_unstored)
  then have 2: "\<exists>r. fst (getChannelState p None (snd (setChannelState c new m ?w1))) = Inr r \<and>
              JSON_stringify (state r) = v"
    by (rule stored_blob_read)
  have "getChannelState c None ?w1 = (Inr noState, ?w1)"
    using u by (rule getChannelState_missing)
  then have 3: "fst (setChannelState c new m ?w1) = Inr ()"
    by (simp add: setChannelState_result)
  have 4: "\<exists>x cached.
               (named (historyOrigin_of inh) = Some x \<or> named (parent_of inh) = Some x) \<and>
               channelCache ?w1 x = Some cached \<and> state cached = state r"
    if "fst (getChannelState c inh w) = Inr r \<and> truthy (state r)" for r
  proof -
    from that have g: "getChannelState c inh w = (Inr r, ?w1)" by (simp add: prod_eq_iff)
    from that have t: "truthy (state r)" by simp
    from assms(1,2) g t show ?thesis by (rule inherited_is_cached)
  qed
  from 1 2 3 4 show ?thesis by blast
qed

lemma lineage_read_P_full:
  "getChannelState ''P'' None lineage_world =
     (Inr \<lparr>state = VObj 0 [(''counter'', JNum 5)],
           metadata = \<lparr>lastModifiedMessageId = Some ''m1'', parentChannelId = None,
                       historyOriginChannelId = None\<rparr>\<rparr>,
      lineage_world\<lparr>nextObject := 1,
        channelCache := [''P'' \<mapsto> \<lparr>state = VObj 0 [(''counter'', JNum 5)],
           metadata = \<lparr>lastModifiedMessageId = Some ''m1'', parentChannelId = None,
                       historyOriginChannelId = None\<rparr>\<rparr>]\<rparr>)"
  by (subst getChannelState_file [where d = "\<lparr>state = JObj [(''counter'', JNum 5)],
            metadata = \<lparr>lastModifiedMessageId = Some ''m1'', parentChannelId = None,
                        historyOriginChannelId = None\<rparr>\<rparr>"])
     (simp_all add: lineage_world_fields lineage_paths)

lemma lineage_blob_P: "stored_blob lineage_world ''P'' = Some (JObj [(''counter'', JNum 5)])"
  by (simp add: stored_blob_def lineage_world_fields lineage_paths)

theorem inherited_write_leaves_parent_witness:
  "channelCache lineage_world ''C'' = None \<and>
   files lineage_world (channelPath lineage_world ''C'') = None \<and>
   stored_blob lineage_world ''P'' = Some (JObj [(''counter'', JNum 5)]) \<and>
   stored_blob
     (snd (setChannelState ''C'' (VObj 8 [(''counter'', JNum 6)]) (Some ''m2'')
        (snd (getChannelState ''C''
           (Some \<lparr>inh_parentChannelId = Some ''P'', inh_historyOriginChannelId = None\<rparr>)
           lineage_world)))) ''P''
     = Some (JObj [(''counter'', JNum 5)]) \<and>
   fst (setChannelState ''C'' (VObj 8 [(''counter'', JNum 6)]) (Some ''m2'')
        (snd (getChannelState ''C''
           (Some \<lparr>inh_parentChannelId = Some ''P'', inh_historyOriginChannelId = None\<rparr>)
           lineage_world))) = Inr ()"
proof -
  have c: "channelCache lineage_world ''C'' = None"
    by (simp add: lineage_world_fields)
  have f: "files lineage_world (channelPath lineage_world ''C'') = None"
    by (simp add: lineage_world_fields lineage_paths)
  from inherited_write_leaves_parent [OF c f lineage_blob_P] c f lineage_blob_P
  show ?thesis by blast
qed

text \<open>
  C6 as stated fails in its last clause: the state returned to the child is the very
  object the manager holds in its cache for the parent, not a copy of it.
\<close>

theorem inherited_state_counterexample:
  "(case getChannelState ''C''
           (Some \<lparr>inh_parentChannelId = Some ''P'', inh_historyOriginChannelId = None\<rparr>)
           lineage_world of
      (Inl e, w1) \<Rightarrow> False
    | (Inr r, w1) \<Rightarrow>
        (case channelCache w1 ''P'' of
           None \<Rightarrow> False
         | Some cached \<Rightarrow>
             state r = VObj 0 [(''counter'', JNum 5)] \<and> same_object (state r) (state cached)))"
proof -
  let ?inh = "Some \<lparr>inh_parentChannelId = Some ''P'', inh_historyOriginChannelId = None\<rparr>"
  have c: "channelCache lineage_world ''C'' = None"
    by (simp add: lineage_world_fields)
  have f: "files lineage_world (channelPath lineage_world ''C'') = None"
    by (simp add: lineage_world_fields lineage_paths)
  have s: "skipped (historyOrigin_of ?inh) lineage_world lineage_world"
    by (simp add: skipped_def named_def historyOrigin_of_def)
  have n: "named (parent_of ?inh) = Some ''P''"
    by (simp add: named_def parent_of_def)
  have t: "truthy (state \<lparr>state = VObj 0 [(''counter'', JNum 5)],
           metadata = \<lparr>lastModifiedMessageId = Some ''m1'', parentChannelId = None,
                       historyOriginChannelId = None\<rparr>\<rparr>)"
    by simp
  show ?thesis
    by (simp add: inherit_parent [OF c f s n lineage_read_P_full t] logger_fields same_object_def)
qed

section \<open>Forking an event log\<close>

lemma log_ok_filter: "log_ok c events \<Longrightarrow> log_ok c (filter P events)"
  by (simp add: log_ok_def distinct_map_filter sorted_wrt_filter)

lemma store_ok_forkEpicState:
  assumes "store_ok w"
  shows "store_ok (snd (forkEpicState parent child M w))"
proof (cases "getEpicEvents parent w")
  case (Pair r w1)
  from assms have w1: "store_ok w1" using store_ok_getEpicEvents(1) [of w parent] Pair by simp
  from collation_getEpicEvents [of parent w] Pair have cw: "collation w1 = collation w" by simp
  show ?thesis
  proof (cases r)
    case (Inl e)
    with Pair w1 show ?thesis by (simp add: forkEpicState_def)
  next
    case (Inr events)
    with assms Pair have "log_ok (collation w) events"
      using store_ok_getEpicEvents(2) [of w parent events] by simp
    then have "log_ok (collation w) (filter (\<lambda>e. localeCompare w (messageId e) M \<le> 0) events)"
      by (rule log_ok_filter)
    with w1 cw have "store_ok (saveEpicEvents child
        (filter (\<lambda>e. localeCompare w (messageId e) M \<le> 0) events) w1)"
      by (simp add: store_ok_saveEpicEvents)
    with w1 Pair Inr show ?thesis
      by (simp add: forkEpicState_def store_ok_logger Let_def)
  qed
qed

lemma stringify_parse_events: "map stringify_event (fst (parse_events n ds)) = ds"
  by (induction ds arbitrary: n) (simp_all add: split_beta stringify_event_def stringify_parse)

lemma getEpicEvents_cached:
  "epicEventsCache w x = Some events \<Longrightarrow> getEpicEvents x w = (Inr events, w)"
  by (simp add: getEpicEvents_def)

lemma getEpicEvents_missing:
  "epicEventsCache w x = None \<Longrightarrow> files w (epicEventsPath w x) = None \<Longrightarrow>
   getEpicEvents x w = (Inr [], w)"
  by (simp add: getEpicEvents_def)

lemma getEpicEvents_file:
  "epicEventsCache w x = None \<Longrightarrow> files w (epicEventsPath w x) = Some (EpicFile ds) \<Longrightarrow>
   getEpicEvents x w =
     (Inr (fst (parse_events (nextObject w) ds)),
      w\<lparr>nextObject := snd (parse_events (nextObject w) ds),
        epicEventsCache := (epicEventsCache w)(x \<mapsto> fst (parse_events (nextObject w) ds))\<rparr>)"
  by (simp add: getEpicEvents_def split_beta)

lemma getEpicEvents_unreadable:
  "epicEventsCache w x = None \<Longrightarrow> files w (epicEventsPath w x) = Some f \<Longrightarrow>
   (\<forall>ds. f \<noteq> EpicFile ds) \<Longrightarrow> getEpicEvents x w = (Inl CorruptData, w)"
  by (cases f) (simp_all add: getEpicEvents_def)

lemma epicEventsPath_fields:
  "cacheDir w' = cacheDir w \<Longrightarrow> pluginId w' = pluginId w \<Longrightarrow>
   epicEventsPath w' x = epicEventsPath w x"
  by (simp add: epicEventsPath_def)

lemma getEpicEvents_effect:
  assumes "getEpicEvents x w = (r, w1)"
  shows "w1 = w \<or>
    (\<exists>ds. epicEventsCache w x = None \<and> files w (epicEventsPath w x) = Some (EpicFile ds) \<and>
       w1 = w\<lparr>nextObject := snd (parse_events (nextObject w) ds),
              epicEventsCache := (epicEventsCache w)(x \<mapsto> fst (parse_events (nextObject w) ds))\<rparr>)"
proof (cases "epicEventsCache w x")
  case (Some events)
  with assms show ?thesis by (simp add: getEpicEvents_cached)
next
  case None
  show ?thesis
  proof (cases "files w (epicEventsPath w x)")
    case fNone: None
    with None assms show ?thesis by (simp add: getEpicEvents_missing)
  next
    case (Some f)
    show ?thesis
    proof (cases "\<exists>ds. f = EpicFile ds")
      case True
      then obtain ds where "f = EpicFile ds" ..
      with None Some assms show ?thesis by (simp add: getEpicEvents_file)
    next
      case False
      with None Some assms show ?thesis by (simp add: getEpicEvents_unreadable)
    qed
  qed
qed

lemma getEpicEvents_frame:
  assumes "getEpicEvents x w = (r, w1)"
  shows "files w1 = files w" "logged w1 = logged w" "cacheDir w1 = cacheDir w"
    "pluginId w1 = pluginId w" "channelCache w1 = channelCache w" "globalCache w1 = globalCache w"
    "stored_log w1 y = stored_log w y"
    "epicEventsCache w y = None \<and> files w (epicEventsPath w y) = None \<longrightarrow>
       epicEventsCache w1 y = None"
    "epicEventsCache w y = Some events \<longrightarrow> epicEventsCache w1 y = Some events"
proof -
  note e = getEpicEvents_effect [OF assms]
  from e show "files w1 = files w" by auto
  from e show "logged w1 = logged w" by auto
  from e show "cacheDir w1 = cacheDir w" by auto
  from e show "pluginId w1 = pluginId w" by auto
  from e show "channelCache w1 = channelCache w" by auto
  from e show "globalCache w1 = globalCache w" by auto
  from e show "stored_log w1 y = stored_log w y"
  proof
    assume "w1 = w"
    then show ?thesis by simp
  next
    assume "\<exists>ds. epicEventsCache w x = None \<and> files w (epicEventsPath w x) = Some (EpicFile ds) \<and>
       w1 = w\<lparr>nextObject := snd (parse_events (nextObject w) ds),
              epicEventsCache := (epicEventsCache w)(x \<mapsto> fst (parse_events (nextObject w) ds))\<rparr>"
    then obtain ds where n: "epicEventsCache w x = None"
      and f: "files w (epicEventsPath w x) = Some (EpicFile ds)"
      and w1: "w1 = w\<lparr>nextObject := snd (parse_events (nextObject w) ds),
              epicEventsCache := (epicEventsCache w)(x \<mapsto> fst (parse_events (nextObject w) ds))\<rparr>"
      by blast
    have p: "epicEventsPath w1 y = epicEventsPath w y" unfolding w1 by (simp add: epicEventsPath_def)
    show ?thesis
    proof (cases "y = x")
      case True
      with n f p show ?thesis unfolding stored_log_def w1
        by (simp add: stringify_parse_events epicEventsPath_def)
    next
      case False
      with p show ?thesis unfolding stored_log_def w1
        by (simp add: epicEventsPath_def cong: option.case_cong)
    qed
  qed
  from e show "epicEventsCache w y = None \<and> files w (epicEventsPath w y) = None \<longrightarrow>
       epicEventsCache w1 y = None" by auto
  from e show "epicEventsCache w y = Some events \<longrightarrow> epicEventsCache w1 y = Some events" by auto
qed

lemma getEpicState_no_log:
  assumes "epicEventsCache w x = None" "files w (epicEventsPath w x) = None"
  shows "getEpicState x upTo live reducer w = (Inr VNull, w)"
  using assms by (simp add: getEpicState_def getEpicEvents_missing)

lemma getEpicEvents_nonempty_cached:
  assumes "getEpicEvents x w = (Inr events, w1)" "events \<noteq> []"
  shows "epicEventsCache w1 x = Some events"
proof (cases "epicEventsCache w x")
  case (Some cached)
  with assms show ?thesis by (simp add: getEpicEvents_cached)
next
  case None
  show ?thesis
  proof (cases "files w (epicEventsPath w x)")
    case fNone: None
    with None assms show ?thesis by (simp add: getEpicEvents_missing)
  next
    case (Some f)
    show ?thesis
    proof (cases "\<exists>ds. f = EpicFile ds")
      case True
      then obtain ds where "f = EpicFile ds" ..
      with None Some assms show ?thesis by (auto simp: getEpicEvents_file)
    next
      case False
      with None Some assms show ?thesis by (simp add: getEpicEvents_unreadable)
    qed
  qed
qed

lemma recordEpicEvent_other_channel:
  assumes "epicEventsCache w y = Some events" "x \<noteq> y"
  shows "epicEventsCache (snd (recordEpicEvent x m d now w)) y = Some events"
proof -
  obtain r w1 where g: "getEpicEvents x w = (r, w1)" by (cases "getEpicEvents x w")
  from getEpicEvents_frame(9) [OF g, of y events] assms(1)
  have "epicEventsCache w1 y = Some events" by simp
  with g assms(2) show ?thesis
    by (cases r) (simp_all add: recordEpicEvent_def saveEpicEvents_def logger_fields Let_def)
qed

lemma getEpicEvents_again:
  assumes "getEpicEvents x w = (Inr events, w1)"
  shows "getEpicEvents x w1 = (Inr events, w1)"
proof (cases "epicEventsCache w x")
  case (Some cached)
  with assms show ?thesis by (simp add: getEpicEvents_cached)
next
  case None
  show ?thesis
  proof (cases "files w (epicEventsPath w x)")
    case fNone: None
    with None assms show ?thesis by (simp add: getEpicEvents_missing)
  next
    case (Some f)
    show ?thesis
    proof (cases "\<exists>ds. f = EpicFile ds")
      case True
      then obtain ds where "f = EpicFile ds" ..
      with None Some assms have "epicEventsCache w1 x = Some events"
        by (auto simp: getEpicEvents_file)
      then show ?thesis by (rule getEpicEvents_cached)
    next
      case False
      with None Some assms show ?thesis by (simp add: getEpicEvents_unreadable)
    qed
  qed
qed

lemma recordEpicEvent_fields:
  "cacheDir (snd (recordEpicEvent x m d now w)) = cacheDir w"
  "pluginId (snd (recordEpicEvent x m d now w)) = pluginId w"
proof -
  obtain r w1 where g: "getEpicEvents x w = (r, w1)" by (cases "getEpicEvents x w")
  note fr = getEpicEvents_frame(3,4) [OF g]
  from g fr show "cacheDir (snd (recordEpicEvent x m d now w)) = cacheDir w"
    by (cases r) (simp_all add: recordEpicEvent_def saveEpicEvents_def logger_fields Let_def)
  from g fr show "pluginId (snd (recordEpicEvent x m d now w)) = pluginId w"
    by (cases r) (simp_all add: recordEpicEvent_def saveEpicEvents_def logger_fields Let_def)
qed

lemma recordEpicEvent_other_file:
  assumes "p \<noteq> epicEventsPath w x"
  shows "files (snd (recordEpicEvent x m d now w)) p = files w p"
proof -
  obtain r w1 where g: "getEpicEvents x w = (r, w1)" by (cases "getEpicEvents x w")
  note fr = getEpicEvents_frame(1,3,4) [OF g]
  from fr have "epicEventsPath w1 x = epicEventsPath w x" by (simp add: epicEventsPath_def)
  with g fr(1) assms show ?thesis
    by (cases r) (simp_all add: recordEpicEvent_def saveEpicEvents_def logger_fields Let_def)
qed

lemma recordEpicEvent_other_unstored:
  assumes "epicEventsCache w y = None" "files w (epicEventsPath w y) = None" "x \<noteq> y"
  shows "epicEventsCache (snd (recordEpicEvent x m d now w)) y = None"
proof -
  obtain r w1 where g: "getEpicEvents x w = (r, w1)" by (cases "getEpicEvents x w")
  from getEpicEvents_frame(8) [OF g, of y] assms(1,2)
  have "epicEventsCache w1 y = None" by simp
  with g assms(3) show ?thesis
    by (cases r) (simp_all add: recordEpicEvent_def saveEpicEvents_def logger_fields Let_def)
qed

lemma takeWhile_filter_ordered:
  assumes "consistent c" "sorted_wrt (\<lambda>a b. c (f a) (f b) \<le> 0) xs"
  shows "takeWhile (\<lambda>x. c (f x) b \<le> 0) xs = filter (\<lambda>x. c (f x) b \<le> 0) xs"
  using assms(2)
proof (induction xs)
  case Nil
  then show ?case by simp
next
  case (Cons x xs)
  from assms(1) have trans: "\<And>a b d. c a b \<le> 0 \<Longrightarrow> c b d \<le> 0 \<Longrightarrow> c a d \<le> 0"
    unfolding consistent_def by blast
  show ?case
  proof (cases "c (f x) b \<le> 0")
    case True
    with Cons show ?thesis by simp
  next
    case False
    from Cons.prems have "\<forall>y \<in> set xs. c (f x) (f y) \<le> 0" by simp
    with False trans have "\<forall>y \<in> set xs. \<not> c (f y) b \<le> 0" by blast
    then have "filter (\<lambda>x. c (f x) b \<le> 0) xs = []" by (simp add: filter_empty_conv)
    with False show ?thesis by simp
  qed
qed

lemma takeWhile_filter_idem:
  "takeWhile P (filter P xs) = filter P xs"
  by (induction xs) simp_all

lemma getEpicState_cached:
  assumes "epicEventsCache w x = Some events"
  shows "fst (getEpicState x upTo live reducer w) =
     Inr (replay_amended (collation w) upTo live reducer events)"
  using assms by (simp add: getEpicState_fst getEpicEvents_cached)

lemma replay_bounded_ordered:
  assumes "consistent c" "sorted_wrt (\<lambda>a b. c (messageId a) (messageId b) \<le> 0) events" "M \<noteq> []"
  shows "replay_amended c (Some M) live reducer events =
         replay_amended c (Some M) live reducer (filter (\<lambda>e. c (messageId e) M \<le> 0) events)"
  using assms(3) takeWhile_filter_ordered [OF assms(1,2), of M]
  by (simp add: replay_amended_def named_def takeWhile_filter_idem)

lemma forkEpicState_writes:
  assumes "getEpicEvents parent w = (Inr parentEvents, w1)"
    and "\<exists>e \<in> set parentEvents. localeCompare w (messageId e) M \<le> 0"
  shows "forkEpicState parent child M w =
     (Inr (), logger LDebug ''Forked epic state for thread''
        (saveEpicEvents child
           (filter (\<lambda>e. localeCompare w (messageId e) M \<le> 0) parentEvents) w1))"
proof -
  from assms(2) have "filter (\<lambda>e. localeCompare w (messageId e) M \<le> 0) parentEvents \<noteq> []"
    by (simp add: filter_empty_conv)
  with assms(1) show ?thesis
    by (simp add: forkEpicState_def)
qed

lemma forkEpicState_skips:
  assumes "getEpicEvents parent w = (Inr parentEvents, w1)"
    and "\<forall>e \<in> set parentEvents. 0 < localeCompare w (messageId e) M"
  shows "forkEpicState parent child M w = (Inr (), w1)"
    and "filter (\<lambda>e. localeCompare w (messageId e) M \<le> 0) parentEvents = []"
proof -
  from assms(2) show e: "filter (\<lambda>e. localeCompare w (messageId e) M \<le> 0) parentEvents = []"
    by (auto simp: filter_empty_conv)
  with assms(1) show "forkEpicState parent child M w = (Inr (), w1)"
    by (simp add: forkEpicState_def)
qed

lemma lexicographic_filter:
  assumes "lexicographic_on (collation w) S" "M \<in> S" "messageId ` set events \<subseteq> S"
  shows "filter (\<lambda>e. localeCompare w (messageId e) M \<le> 0) events =
         filter (\<lambda>e. messageId e \<le> M) events"
proof (rule filter_cong [OF refl])
  fix e
  assume "e \<in> set events"
  with assms(3) have "messageId e \<in> S" by auto
  with assms(1,2) show "(localeCompare w (messageId e) M \<le> 0) = (messageId e \<le> M)"
    by (simp add: lexicographic_le)
qed

lemma lexicographic_sorted:
  assumes "lexicographic_on (collation w) S" "messageId ` set events \<subseteq> S"
  shows "sorted_wrt (\<lambda>a b. localeCompare w (messageId a) (messageId b) \<le> 0) events =
         sorted (map messageId events)"
proof -
  have "sorted_wrt (\<lambda>a b. localeCompare w (messageId a) (messageId b) \<le> 0) events =
        sorted_wrt (\<lambda>a b. messageId a \<le> messageId b) events"
  proof
    assume s: "sorted_wrt (\<lambda>a b. localeCompare w (messageId a) (messageId b) \<le> 0) events"
    show "sorted_wrt (\<lambda>a b. messageId a \<le> messageId b) events"
    proof (rule sorted_wrt_mono_rel [OF _ s])
      fix a b
      assume "a \<in> set events" "b \<in> set events"
        "localeCompare w (messageId a) (messageId b) \<le> 0"
      with assms show "messageId a \<le> messageId b"
        using lexicographic_le [of w S "messageId a" "messageId b"] by blast
    qed
  next
    assume s: "sorted_wrt (\<lambda>a b. messageId a \<le> messageId b) events"
    show "sorted_wrt (\<lambda>a b. localeCompare w (messageId a) (messageId b) \<le> 0) events"
    proof (rule sorted_wrt_mono_rel [OF _ s])
      fix a b
      assume "a \<in> set events" "b \<in> set events" "messageId a \<le> messageId b"
      with assms show "localeCompare w (messageId a) (messageId b) \<le> 0"
        using lexicographic_le [of w S "messageId a" "messageId b"] by blast
    qed
  qed
  then show ?thesis by (simp add: sorted_map)
qed

text \<open>
  C10 (as amended). For every parent log that can be read and in which
  \<open>localeCompare\<close> orders no message id at or before \<open>threadCreationMessageId\<close> (an
  empty or absent parent log among them; and, where \<open>localeCompare\<close> is the
  lexicographic comparison of the identifiers, as it is on identifiers made of digits
  only, every parent log with no message id lexicographically at most
  \<open>threadCreationMessageId\<close>), \<open>forkEpicState\<close> returns having written nothing: it only
  read the parent log, no file and no logged line changed, the log held for every
  channel, the child among them, is the one held before, and a child with no log
  still replays to null afterwards.
\<close>

theorem fork_without_events:
  assumes "getEpicEvents parent w = (Inr parentEvents, w1)"
    and "(\<forall>e \<in> set parentEvents. 0 < localeCompare w (messageId e) M) \<or>
         (\<exists>S. lexicographic_on (collation w) S \<and> M \<in> S \<and> messageId ` set parentEvents \<subseteq> S \<and>
            (\<forall>e \<in> set parentEvents. \<not> messageId e \<le> M))"
  shows "forkEpicState parent child M w = (Inr (), w1) \<and>
         files w1 = files w \<and> logged w1 = logged w \<and>
         (\<forall>x. stored_log w1 x = stored_log w x) \<and>
         (epicEventsCache w child = None \<and> files w (epicEventsPath w child) = None \<longrightarrow>
            (\<forall>upTo live reducer.
               fst (getEpicState child upTo live reducer w1) = Inr VNull))"
proof -
  have none: "\<forall>e \<in> set parentEvents. 0 < localeCompare w (messageId e) M"
    using assms(2)
  proof
    assume "\<forall>e \<in> set parentEvents. 0 < localeCompare w (messageId e) M"
    then show ?thesis .
  next
    assume "\<exists>S. lexicographic_on (collation w) S \<and> M \<in> S \<and> messageId ` set parentEvents \<subseteq> S \<and>
            (\<forall>e \<in> set parentEvents. \<not> messageId e \<le> M)"
    then obtain S where l: "lexicographic_on (collation w) S" and m: "M \<in> S"
      and i: "messageId ` set parentEvents \<subseteq> S"
      and n: "\<forall>e \<in> set parentEvents. \<not> messageId e \<le> M"
      by blast
    show ?thesis
    proof
      fix e
      assume e: "e \<in> set parentEvents"
      with i have "messageId e \<in> S" by auto
      with l m have "(localeCompare w (messageId e) M \<le> 0) = (messageId e \<le> M)"
        by (simp add: lexicographic_le)
      with n e show "0 < localeCompare w (messageId e) M" by auto
    qed
  qed
  have 1: "forkEpicState parent child M w = (Inr (), w1)"
    using assms(1) none by (rule forkEpicState_skips(1))
  note fr = getEpicEvents_frame [OF assms(1)]
  have 2: "\<forall>upTo live reducer. fst (getEpicState child upTo live reducer w1) = Inr VNull"
    if "epicEventsCache w child = None \<and> files w (epicEventsPath w child) = None"
  proof -
    from that fr(8) [of child] have "epicEventsCache w1 child = None" by simp
    moreover from that fr(1,3,4) have "files w1 (epicEventsPath w1 child) = None"
      by (simp add: epicEventsPath_def)
    ultimately show ?thesis by (simp add: getEpicState_no_log)
  qed
  from 1 2 fr(1,2,7) show ?thesis by blast
qed

theorem fork_without_events_witness:
  "fst (getEpicEvents ''c'' scenario_world) =
     Inr [\<lparr>messageId = ''m1'', timestamp = ''t1'', delta = VNum 1\<rparr>,
          \<lparr>messageId = ''m2'', timestamp = ''t2'', delta = VNum 1\<rparr>,
          \<lparr>messageId = ''m3'', timestamp = ''t3'', delta = VNum 1\<rparr>] \<and>
   fst (forkEpicState ''c'' ''t'' ''m0'' scenario_world) = Inr () \<and>
   files (snd (forkEpicState ''c'' ''t'' ''m0'' scenario_world)) = files scenario_world \<and>
   stored_log (snd (forkEpicState ''c'' ''t'' ''m0'' scenario_world)) ''t'' = None \<and>
   stored_log (snd (forkEpicState ''c'' ''t'' ''m0'' scenario_world)) ''c'' = Some scenario_log"
proof -
  let ?events = "[\<lparr>messageId = ''m1'', timestamp = ''t1'', delta = VNum 1\<rparr>,
          \<lparr>messageId = ''m2'', timestamp = ''t2'', delta = VNum 1\<rparr>,
          \<lparr>messageId = ''m3'', timestamp = ''t3'', delta = VNum 1\<rparr>]"
  let ?S = "{''m0'', ''m1'', ''m2'', ''m3'', ''m4''}"
  obtain w1 where g: "getEpicEvents ''c'' scenario_world = (Inr ?events, w1)"
    using scenario_events by blast
  have l: "lexicographic_on (collation scenario_world) ?S"
    by (simp only: scenario_collation scenario_ids)
  have "''m0'' \<in> ?S \<and> messageId ` set ?events \<subseteq> ?S \<and>
      (\<forall>e \<in> set ?events. \<not> messageId e \<le> ''m0'')"
    by simp
  with l have h: "(\<forall>e \<in> set ?events. 0 < localeCompare scenario_world (messageId e) ''m0'') \<or>
         (\<exists>S. lexicographic_on (collation scenario_world) S \<and> ''m0'' \<in> S \<and>
            messageId ` set ?events \<subseteq> S \<and> (\<forall>e \<in> set ?events. \<not> messageId e \<le> ''m0''))"
    by blast
  have t: "stored_log scenario_world ''t'' = None"
    by (simp add: stored_log_def scenario_world_def newPluginStateManager_def
        epicEventsPath_def path_join_def path_normalize_def)
  have c: "stored_log scenario_world ''c'' = Some scenario_log"
    by (simp add: stored_log_def scenario_world_def newPluginStateManager_def
        epicEventsPath_def path_join_def path_normalize_def)
  from fork_without_events [OF g h, of "''t''"] g t c show ?thesis by simp
qed

text \<open>
  C10 as stated fails for identifiers that differ in case: the one event \<open>a\<close> of the
  parent is not lexicographically at most \<open>B\<close>, yet \<open>localeCompare\<close> orders \<open>a\<close> before
  \<open>B\<close>, the event is copied, and the fork creates the log of the child.
\<close>

theorem fork_without_events_counterexample:
  "fst (getEpicEvents ''c'' mixed_case_world) =
     Inr [\<lparr>messageId = ''a'', timestamp = ''t1'', delta = VNum 1\<rparr>] \<and>
   \<not> ''a'' \<le> ''B'' \<and>
   stored_log mixed_case_world ''t'' = None \<and>
   fst (forkEpicState ''c'' ''t'' ''B'' mixed_case_world) = Inr () \<and>
   stored_log (snd (forkEpicState ''c'' ''t'' ''B'' mixed_case_world)) ''t'' =
     Some [\<lparr>messageId = ''a'', timestamp = ''t1'', delta = JNum 1\<rparr>] \<and>
   files (snd (forkEpicState ''c'' ''t'' ''B'' mixed_case_world)) ''cache/plugins/p/epic/t.json'' =
     Some (EpicFile [\<lparr>messageId = ''a'', timestamp = ''t1'', delta = JNum 1\<rparr>])"
proof -
  let ?w1 = "mixed_case_world\<lparr>epicEventsCache :=
       [''c'' \<mapsto> [\<lparr>messageId = ''a'', timestamp = ''t1'', delta = VNum 1\<rparr>]]\<rparr>"
  have g: "getEpicEvents ''c'' mixed_case_world =
      (Inr [\<lparr>messageId = ''a'', timestamp = ''t1'', delta = VNum 1\<rparr>], ?w1)"
    by (simp add: getEpicEvents_def mixed_case_world_def newPluginStateManager_def
        epicEventsPath_def path_join_def path_normalize_def)
  have c: "collation mixed_case_world = ascii_collation"
    by (simp add: mixed_case_world_def collation_new)
  have p: "epicEventsPath ?w1 ''t'' = ''cache/plugins/p/epic/t.json''"
    by (simp add: mixed_case_world_def newPluginStateManager_def epicEventsPath_def
        path_join_def path_normalize_def)
  have fk: "forkEpicState ''c'' ''t'' ''B'' mixed_case_world =
      (Inr (), logger LDebug ''Forked epic state for thread''
         (saveEpicEvents ''t'' [\<lparr>messageId = ''a'', timestamp = ''t1'', delta = VNum 1\<rparr>] ?w1))"
    by (simp add: forkEpicState_def g localeCompare_def c ascii_collation_mixed_case)
  have 1: "fst (getEpicEvents ''c'' mixed_case_world) =
     Inr [\<lparr>messageId = ''a'', timestamp = ''t1'', delta = VNum 1\<rparr>]"
    by (simp add: g)
  have 2: "\<not> ''a'' \<le> ''B''" by simp
  have 3: "stored_log mixed_case_world ''t'' = None"
    by (simp add: stored_log_def mixed_case_world_def newPluginStateManager_def
        epicEventsPath_def path_join_def path_normalize_def)
  have 4: "fst (forkEpicState ''c'' ''t'' ''B'' mixed_case_world) = Inr ()"
    by (simp add: fk)
  have 5: "stored_log (snd (forkEpicState ''c'' ''t'' ''B'' mixed_case_world)) ''t'' =
     Some [\<lparr>messageId = ''a'', timestamp = ''t1'', delta = JNum 1\<rparr>]"
    by (simp add: fk stored_log_def saveEpicEvents_def logger_def stringify_event_def)
  have 6: "files (snd (forkEpicState ''c'' ''t'' ''B'' mixed_case_world))
      ''cache/plugins/p/epic/t.json'' =
     Some (EpicFile [\<lparr>messageId = ''a'', timestamp = ''t1'', delta = JNum 1\<rparr>])"
    by (simp add: fk saveEpicEvents_def logger_def stringify_event_def p)
  from 1 2 3 4 5 6 show ?thesis by blast
qed

text \<open>
  C3 (as amended). For every parent log that is sorted in the order of a consistent
  \<open>localeCompare\<close>, every non-empty fork point \<open>M\<close>, and every child that has no log of
  its own unless some parent event is ordered at or before \<open>M\<close>: after
  \<open>forkEpicState\<close> the log of the child is exactly the parent events that
  \<open>localeCompare\<close> orders at or before \<open>M\<close>, in the cache and in its file when there
  is such an event; replaying the child with bound \<open>M\<close> then equals replaying the
  parent with bound \<open>M\<close>, before and after the fork, for the same live set and
  reducer; and an event recorded afterwards on a parent whose log is another file
  appears neither in the log of the child nor in its file. Where \<open>localeCompare\<close> is
  the lexicographic comparison of the identifiers of the log and of \<open>M\<close>, as it is on
  identifiers made of digits only, the log is sorted in that order exactly when it is
  sorted lexicographically, and the events copied are the ones with message id
  lexicographically at most \<open>M\<close>.
\<close>

theorem fork_correct:
  assumes "getEpicEvents parent w = (Inr parentEvents, w1)"
    and "consistent (collation w)"
    and "sorted_wrt (\<lambda>a b. localeCompare w (messageId a) (messageId b) \<le> 0) parentEvents"
    and "M \<noteq> []"
    and "(\<exists>e \<in> set parentEvents. localeCompare w (messageId e) M \<le> 0) \<or>
         (epicEventsCache w child = None \<and> files w (epicEventsPath w child) = None)"
  shows "fst (forkEpicState parent child M w) = Inr () \<and>
     fst (getEpicEvents child (snd (forkEpicState parent child M w))) =
       Inr (filter (\<lambda>e. localeCompare w (messageId e) M \<le> 0) parentEvents) \<and>
     ((\<exists>e \<in> set parentEvents. localeCompare w (messageId e) M \<le> 0) \<longrightarrow>
        epicEventsCache (snd (forkEpicState parent child M w)) child =
          Some (filter (\<lambda>e. localeCompare w (messageId e) M \<le> 0) parentEvents) \<and>
        files (snd (forkEpicState parent child M w)) (epicEventsPath w child) =
          Some (EpicFile (map stringify_event
            (filter (\<lambda>e. localeCompare w (messageId e) M \<le> 0) parentEvents)))) \<and>
     fst (getEpicState child (Some M) live reducer (snd (forkEpicState parent child M w))) =
       fst (getEpicState parent (Some M) live reducer (snd (forkEpicState parent child M w))) \<and>
     fst (getEpicState child (Some M) live reducer (snd (forkEpicState parent child M w))) =
       fst (getEpicState parent (Some M) live reducer w) \<and>
     (epicEventsPath w parent \<noteq> epicEventsPath w child \<longrightarrow>
        (\<forall>m d now.
           fst (getEpicEvents child
                  (snd (recordEpicEvent parent m d now (snd (forkEpicState parent child M w))))) =
             Inr (filter (\<lambda>e. localeCompare w (messageId e) M \<le> 0) parentEvents) \<and>
           files (snd (recordEpicEvent parent m d now (snd (forkEpicState parent child M w))))
               (epicEventsPath w child) =
             files (snd (forkEpicState parent child M w)) (epicEventsPath w child))) \<and>
     (\<forall>S. lexicographic_on (collation w) S \<and> M \<in> S \<and> messageId ` set parentEvents \<subseteq> S \<longrightarrow>
        filter (\<lambda>e. localeCompare w (messageId e) M \<le> 0) parentEvents =
          filter (\<lambda>e. messageId e \<le> M) parentEvents \<and>
        sorted_wrt (\<lambda>a b. localeCompare w (messageId a) (messageId b) \<le> 0) parentEvents =
          sorted (map messageId parentEvents))"
proof -
  let ?forked = "filter (\<lambda>e. localeCompare w (messageId e) M \<le> 0) parentEvents"
  let ?w2 = "snd (forkEpicState parent child M w)"
  note fr = getEpicEvents_frame [OF assms(1)]
  have cw1: "collation w1 = collation w"
    using collation_getEpicEvents [of parent w] assms(1) by simp
  have sorted: "sorted_wrt (\<lambda>a b. collation w (messageId a) (messageId b) \<le> 0) parentEvents"
    using assms(3) by (simp add: localeCompare_def)
  have forked: "?forked = filter (\<lambda>e. collation w (messageId e) M \<le> 0) parentEvents"
    by (simp add: localeCompare_def)
  have bounded: "replay_amended (collation w) (Some M) live reducer parentEvents =
      replay_amended (collation w) (Some M) live reducer ?forked"
    unfolding forked using assms(2) sorted assms(4) by (rule replay_bounded_ordered)
  have before: "fst (getEpicState parent (Some M) live reducer w) =
      Inr (replay_amended (collation w) (Some M) live reducer ?forked)"
    using assms(1) bounded by (simp add: getEpicState_fst)
  have again: "getEpicEvents parent w1 = (Inr parentEvents, w1)"
    using assms(1) by (rule getEpicEvents_again)
  have pw1: "epicEventsPath w1 x = epicEventsPath w x" for x
    using fr(3,4) by (simp add: epicEventsPath_def)
  have distinct_ids: "parent \<noteq> child" if "epicEventsPath w parent \<noteq> epicEventsPath w child"
    using that by auto
  show ?thesis
  proof (cases "\<exists>e \<in> set parentEvents. localeCompare w (messageId e) M \<le> 0")
    case True
    note fk = forkEpicState_writes [OF assms(1) True, of child]
    have cw2: "collation ?w2 = collation w"
      by (simp add: fk collation_logger collation_saveEpicEvents cw1)
    have pw2: "epicEventsPath ?w2 x = epicEventsPath w x" for x
      using fr(3,4) by (simp add: fk epicEventsPath_def saveEpicEvents_def logger_def)
    have 1: "fst (forkEpicState parent child M w) = Inr ()" by (simp add: fk)
    have 2: "epicEventsCache ?w2 child = Some ?forked"
      by (simp add: fk saveEpicEvents_def logger_fields)
    have 3: "files ?w2 (epicEventsPath w child) = Some (EpicFile (map stringify_event ?forked))"
      using pw1 [of child] by (simp add: fk saveEpicEvents_def logger_def)
    have g2: "fst (getEpicEvents child ?w2) = Inr ?forked"
      using 2 by (simp add: getEpicEvents_cached)
    have child: "fst (getEpicState child (Some M) live reducer ?w2) =
        Inr (replay_amended (collation w) (Some M) live reducer ?forked)"
      using getEpicState_cached [OF 2, of "Some M" live reducer] by (simp only: cw2)
    from True have ne: "parentEvents \<noteq> []" by auto
    have pc: "epicEventsCache w1 parent = Some parentEvents"
      using assms(1) ne by (rule getEpicEvents_nonempty_cached)
    have after: "fst (getEpicState parent (Some M) live reducer ?w2) =
        Inr (replay_amended (collation w) (Some M) live reducer ?forked)"
    proof (cases "parent = child")
      case True
      with child show ?thesis by simp
    next
      case False
      with pc have "epicEventsCache ?w2 parent = Some parentEvents"
        by (simp add: fk saveEpicEvents_def logger_fields)
      from getEpicState_cached [OF this, of "Some M" live reducer] bounded
      show ?thesis by (simp only: cw2)
    qed
    have 4: "fst (getEpicState child (Some M) live reducer ?w2) =
         fst (getEpicState parent (Some M) live reducer ?w2)"
      using child after by simp
    have 5: "fst (getEpicState child (Some M) live reducer ?w2) =
         fst (getEpicState parent (Some M) live reducer w)"
      using child before by simp
    have 6: "fst (getEpicEvents child (snd (recordEpicEvent parent m d now ?w2))) = Inr ?forked \<and>
        files (snd (recordEpicEvent parent m d now ?w2)) (epicEventsPath w child) =
          files ?w2 (epicEventsPath w child)"
      if "epicEventsPath w parent \<noteq> epicEventsPath w child" for m d now
    proof -
      from that have "parent \<noteq> child" by (rule distinct_ids)
      with 2 have "epicEventsCache (snd (recordEpicEvent parent m d now ?w2)) child = Some ?forked"
        by (rule recordEpicEvent_other_channel)
      then have a: "fst (getEpicEvents child (snd (recordEpicEvent parent m d now ?w2))) =
          Inr ?forked"
        by (simp add: getEpicEvents_cached)
      from that have "epicEventsPath w child \<noteq> epicEventsPath ?w2 parent"
        by (simp only: pw2)
      then have "files (snd (recordEpicEvent parent m d now ?w2)) (epicEventsPath w child) =
          files ?w2 (epicEventsPath w child)"
        by (rule recordEpicEvent_other_file)
      with a show ?thesis by simp
    qed
    have 7: "filter (\<lambda>e. localeCompare w (messageId e) M \<le> 0) parentEvents =
          filter (\<lambda>e. messageId e \<le> M) parentEvents \<and>
        sorted_wrt (\<lambda>a b. localeCompare w (messageId a) (messageId b) \<le> 0) parentEvents =
          sorted (map messageId parentEvents)"
      if "lexicographic_on (collation w) S \<and> M \<in> S \<and> messageId ` set parentEvents \<subseteq> S" for S
      using that lexicographic_filter [of w S M parentEvents]
        lexicographic_sorted [of w S parentEvents]
      by simp
    from 1 g2 2 3 4 5 6 7 show ?thesis by blast
  next
    case False
    with assms(5) have fresh: "epicEventsCache w child = None"
      "files w (epicEventsPath w child) = None"
      by blast+
    from False have none: "\<forall>e \<in> set parentEvents. 0 < localeCompare w (messageId e) M"
      by auto
    note fk = forkEpicState_skips [OF assms(1) none]
    have w2: "?w2 = w1" by (simp add: fk)
    have e: "?forked = []" by (rule fk(2))
    have c1: "epicEventsCache w1 child = None"
      using fresh fr(8) [of child] by simp
    have f1: "files w1 (epicEventsPath w1 child) = None"
      using fresh fr(1) pw1 [of child] by simp
    have 1: "fst (forkEpicState parent child M w) = Inr ()" by (simp add: fk)
    have g2: "fst (getEpicEvents child ?w2) = Inr ?forked"
      unfolding w2 e using c1 f1 by (simp add: getEpicEvents_missing)
    have child: "fst (getEpicState child (Some M) live reducer ?w2) = Inr VNull"
      unfolding w2 using c1 f1 by (simp add: getEpicState_no_log)
    have null: "replay_amended (collation w) (Some M) live reducer ?forked = VNull"
      unfolding e by (simp add: replay_amended_def)
    have after: "fst (getEpicState parent (Some M) live reducer ?w2) = Inr VNull"
      unfolding w2 using again bounded null by (simp add: getEpicState_fst cw1)
    have 4: "fst (getEpicState child (Some M) live reducer ?w2) =
         fst (getEpicState parent (Some M) live reducer ?w2)"
      using child after by simp
    have 5: "fst (getEpicState child (Some M) live reducer ?w2) =
         fst (getEpicState parent (Some M) live reducer w)"
      using child before null by simp
    have 6: "fst (getEpicEvents child (snd (recordEpicEvent parent m d now ?w2))) = Inr ?forked \<and>
        files (snd (recordEpicEvent parent m d now ?w2)) (epicEventsPath w child) =
          files ?w2 (epicEventsPath w child)"
      if "epicEventsPath w parent \<noteq> epicEventsPath w child" for m d now
    proof -
      let ?w3 = "snd (recordEpicEvent parent m d now w1)"
      from that have pc: "parent \<noteq> child" by (rule distinct_ids)
      from c1 f1 pc have c3: "epicEventsCache ?w3 child = None"
        by (rule recordEpicEvent_other_unstored)
      from that have "epicEventsPath w child \<noteq> epicEventsPath w1 parent"
        by (simp only: pw1)
      then have f3: "files ?w3 (epicEventsPath w child) = files w1 (epicEventsPath w child)"
        by (rule recordEpicEvent_other_file)
      have "epicEventsPath ?w3 child = epicEventsPath w child"
        using recordEpicEvent_fields [of parent m d now w1] fr(3,4)
        by (simp add: epicEventsPath_def)
      with f3 f1 pw1 [of child] have "files ?w3 (epicEventsPath ?w3 child) = None" by simp
      with c3 have "fst (getEpicEvents child ?w3) = Inr []"
        by (simp add: getEpicEvents_missing)
      with f3 show ?thesis unfolding w2 e by simp
    qed
    have 7: "filter (\<lambda>e. localeCompare w (messageId e) M \<le> 0) parentEvents =
          filter (\<lambda>e. messageId e \<le> M) parentEvents \<and>
        sorted_wrt (\<lambda>a b. localeCompare w (messageId a) (messageId b) \<le> 0) parentEvents =
          sorted (map messageId parentEvents)"
      if "lexicographic_on (collation w) S \<and> M \<in> S \<and> messageId ` set parentEvents \<subseteq> S" for S
      using that lexicographic_filter [of w S M parentEvents]
        lexicographic_sorted [of w S parentEvents]
      by simp
    from False 1 g2 4 5 6 7 show ?thesis by blast
  qed
qed

lemma epic_paths:
  "epicEventsPath (newPluginStateManager ''cache'' ''p'' disk) ''c'' = ''cache/plugins/p/epic/c.json''"
  "epicEventsPath (newPluginStateManager ''cache'' ''p'' disk) ''t'' = ''cache/plugins/p/epic/t.json''"
  by (simp_all add: epicEventsPath_def newPluginStateManager_def path_join_def path_normalize_def)

theorem fork_correct_witness:
  "fst (forkEpicState ''c'' ''t'' ''m2'' scenario_world) = Inr () \<and>
   epicEventsCache (snd (forkEpicState ''c'' ''t'' ''m2'' scenario_world)) ''t'' =
     Some [\<lparr>messageId = ''m1'', timestamp = ''t1'', delta = VNum 1\<rparr>,
           \<lparr>messageId = ''m2'', timestamp = ''t2'', delta = VNum 1\<rparr>] \<and>
   fst (getEpicState ''t'' (Some ''m2'') None counter_reducer
          (snd (forkEpicState ''c'' ''t'' ''m2'' scenario_world))) = Inr (VNum 2) \<and>
   fst (getEpicEvents ''t''
          (snd (recordEpicEvent ''c'' ''m4'' (VNum 1) ''t4''
             (snd (forkEpicState ''c'' ''t'' ''m2'' scenario_world))))) =
     Inr [\<lparr>messageId = ''m1'', timestamp = ''t1'', delta = VNum 1\<rparr>,
          \<lparr>messageId = ''m2'', timestamp = ''t2'', delta = VNum 1\<rparr>] \<and>
   fst (getEpicEvents ''t'' (snd (forkEpicState ''c'' ''t'' ''m0'' scenario_world))) = Inr [] \<and>
   fst (getEpicState ''t'' (Some ''m0'') None counter_reducer
          (snd (forkEpicState ''c'' ''t'' ''m0'' scenario_world))) =
     fst (getEpicState ''c'' (Some ''m0'') None counter_reducer scenario_world)"
proof -
  let ?events = "[\<lparr>messageId = ''m1'', timestamp = ''t1'', delta = VNum 1\<rparr>,
          \<lparr>messageId = ''m2'', timestamp = ''t2'', delta = VNum 1\<rparr>,
          \<lparr>messageId = ''m3'', timestamp = ''t3'', delta = VNum 1\<rparr>]"
  let ?S = "{''m0'', ''m1'', ''m2'', ''m3'', ''m4''}"
  let ?w = scenario_world
  obtain w1 where g: "getEpicEvents ''c'' ?w = (Inr ?events, w1)"
    using scenario_events by blast
  have k: "consistent (collation ?w)"
    by (simp only: scenario_collation consistent_ascii_collation)
  have l: "lexicographic_on (collation ?w) ?S"
    by (simp only: scenario_collation scenario_ids)
  have i: "messageId ` set ?events \<subseteq> ?S" by simp
  have s: "sorted_wrt (\<lambda>a b. localeCompare ?w (messageId a) (messageId b) \<le> 0) ?events"
    using lexicographic_sorted [OF l i] by simp
  have m2: "''m2'' \<noteq> []" and m0: "''m0'' \<noteq> []" by simp_all
  have f2: "filter (\<lambda>e. localeCompare ?w (messageId e) ''m2'' \<le> 0) ?events =
     [\<lparr>messageId = ''m1'', timestamp = ''t1'', delta = VNum 1\<rparr>,
      \<lparr>messageId = ''m2'', timestamp = ''t2'', delta = VNum 1\<rparr>]"
    using lexicographic_filter [OF l _ i, of "''m2''"] by simp
  have f0: "filter (\<lambda>e. localeCompare ?w (messageId e) ''m0'' \<le> 0) ?events = []"
    using lexicographic_filter [OF l _ i, of "''m0''"] by simp
  have e2: "(\<exists>e \<in> set ?events. localeCompare ?w (messageId e) ''m2'' \<le> 0) \<or>
         (epicEventsCache ?w ''t'' = None \<and> files ?w (epicEventsPath ?w ''t'') = None)"
    by (simp add: scenario_world_def newPluginStateManager_def epicEventsPath_def
        path_join_def path_normalize_def)
  have e0: "(\<exists>e \<in> set ?events. localeCompare ?w (messageId e) ''m0'' \<le> 0) \<or>
         (epicEventsCache ?w ''t'' = None \<and> files ?w (epicEventsPath ?w ''t'') = None)"
    by (simp add: scenario_world_def newPluginStateManager_def epicEventsPath_def
        path_join_def path_normalize_def)
  have some: "\<exists>e \<in> set ?events. localeCompare ?w (messageId e) ''m2'' \<le> 0"
  proof (rule ccontr)
    assume "\<not> (\<exists>e \<in> set ?events. localeCompare ?w (messageId e) ''m2'' \<le> 0)"
    then have "filter (\<lambda>e. localeCompare ?w (messageId e) ''m2'' \<le> 0) ?events = []"
      by (simp only: filter_empty_conv) blast
    with f2 show False by simp
  qed
  have p: "fst (getEpicState ''c'' (Some ''m2'') None counter_reducer ?w) = Inr (VNum 2)"
    using g replay_lexicographic [OF l i, of "Some ''m2''" None counter_reducer]
    by (simp add: getEpicState_fst replay_claimed_def named_def)
  have ne: "epicEventsPath ?w ''c'' \<noteq> epicEventsPath ?w ''t''"
    by (simp add: scenario_world_def epic_paths)
  note fc = fork_correct [OF g k s m2 e2, of None counter_reducer, unfolded f2]
  note fd = fork_correct [OF g k s m0 e0, of None counter_reducer, unfolded f0]
  from fc have 1: "fst (forkEpicState ''c'' ''t'' ''m2'' ?w) = Inr ()" by (rule conjunct1)
  from fc [THEN conjunct2, THEN conjunct2, THEN conjunct1] some
  have 2: "epicEventsCache (snd (forkEpicState ''c'' ''t'' ''m2'' ?w)) ''t'' =
     Some [\<lparr>messageId = ''m1'', timestamp = ''t1'', delta = VNum 1\<rparr>,
           \<lparr>messageId = ''m2'', timestamp = ''t2'', delta = VNum 1\<rparr>]" by blast
  from fc [THEN conjunct2, THEN conjunct2, THEN conjunct2, THEN conjunct2, THEN conjunct1] p
  have 3: "fst (getEpicState ''t'' (Some ''m2'') None counter_reducer
          (snd (forkEpicState ''c'' ''t'' ''m2'' ?w))) = Inr (VNum 2)" by simp
  from fc [THEN conjunct2, THEN conjunct2, THEN conjunct2, THEN conjunct2, THEN conjunct2,
      THEN conjunct1] ne
  have 4: "fst (getEpicEvents ''t''
          (snd (recordEpicEvent ''c'' ''m4'' (VNum 1) ''t4''
             (snd (forkEpicState ''c'' ''t'' ''m2'' ?w))))) =
     Inr [\<lparr>messageId = ''m1'', timestamp = ''t1'', delta = VNum 1\<rparr>,
          \<lparr>messageId = ''m2'', timestamp = ''t2'', delta = VNum 1\<rparr>]" by blast
  from fd [THEN conjunct2, THEN conjunct1]
  have 5: "fst (getEpicEvents ''t'' (snd (forkEpicState ''c'' ''t'' ''m0'' ?w))) = Inr []" .
  from fd [THEN conjunct2, THEN conjunct2, THEN conjunct2, THEN conjunct2, THEN conjunct1]
  have 6: "fst (getEpicState ''t'' (Some ''m0'') None counter_reducer
          (snd (forkEpicState ''c'' ''t'' ''m0'' ?w))) =
     fst (getEpicState ''c'' (Some ''m0'') None counter_reducer ?w)" .
  from 1 2 3 4 5 6 show ?thesis by blast
qed

text \<open>
  C3 as stated fails when the child already holds events and no parent event is at
  most \<open>M\<close>: nothing is copied, the log of the child stays, and the two replays with
  bound \<open>M\<close> differ. It fails too for identifiers that differ in case: the fork
  copies the parent event \<open>a\<close> for the fork point \<open>B\<close>, \<open>localeCompare\<close> ordering \<open>a\<close>
  before \<open>B\<close>, although \<open>a\<close> is not lexicographically at most \<open>B\<close>.
\<close>

theorem fork_counterexample:
  "fst (forkEpicState ''c'' ''t'' ''m7'' diverged_world) = Inr () \<and>
   fst (getEpicState ''t'' (Some ''m7'') None counter_reducer
          (snd (forkEpicState ''c'' ''t'' ''m7'' diverged_world))) = Inr (VNum 1) \<and>
   fst (getEpicState ''c'' (Some ''m7'') None counter_reducer
          (snd (forkEpicState ''c'' ''t'' ''m7'' diverged_world))) = Inr VNull \<and>
   stored_log (snd (forkEpicState ''c'' ''t'' ''m7'' diverged_world)) ''t'' =
     Some [\<lparr>messageId = ''m5'', timestamp = ''t5'', delta = JNum 1\<rparr>] \<and>
   epicEventsCache (snd (forkEpicState ''c'' ''t'' ''B'' mixed_case_world)) ''t'' =
     Some [\<lparr>messageId = ''a'', timestamp = ''t1'', delta = VNum 1\<rparr>] \<and>
   filter (\<lambda>e. messageId e \<le> ''B'') [\<lparr>messageId = ''a'', timestamp = ''t1'', delta = VNum 1\<rparr>] = []"
proof -
  let ?w1 = "diverged_world\<lparr>epicEventsCache :=
       [''c'' \<mapsto> [\<lparr>messageId = ''m9'', timestamp = ''t9'', delta = VNum 1\<rparr>]]\<rparr>"
  have c: "collation diverged_world = ascii_collation"
    by (simp add: diverged_world_def collation_new)
  have g: "getEpicEvents ''c'' diverged_world =
      (Inr [\<lparr>messageId = ''m9'', timestamp = ''t9'', delta = VNum 1\<rparr>], ?w1)"
    by (simp add: getEpicEvents_def diverged_world_def newPluginStateManager_def
        epicEventsPath_def path_join_def path_normalize_def)
  have a: "ascii_collation ''m9'' ''m7'' = 1" "ascii_collation ''m5'' ''m7'' = - 1"
    by (simp_all add: ascii_collation_def to_lower_def)
  have fk: "forkEpicState ''c'' ''t'' ''m7'' diverged_world = (Inr (), ?w1)"
    by (simp add: forkEpicState_def g localeCompare_def c a)
  have gt: "fst (getEpicEvents ''t'' ?w1) =
      Inr [\<lparr>messageId = ''m5'', timestamp = ''t5'', delta = VNum 1\<rparr>]"
    by (simp add: getEpicEvents_def diverged_world_def epicEventsPath_def newPluginStateManager_def
        path_join_def path_normalize_def)
  have gc: "fst (getEpicEvents ''c'' ?w1) =
      Inr [\<lparr>messageId = ''m9'', timestamp = ''t9'', delta = VNum 1\<rparr>]"
    by (simp add: getEpicEvents_def)
  have st: "stored_log ?w1 ''t'' = Some [\<lparr>messageId = ''m5'', timestamp = ''t5'', delta = JNum 1\<rparr>]"
    by (simp add: stored_log_def diverged_world_def epicEventsPath_def newPluginStateManager_def
        path_join_def path_normalize_def)
  have 1: "fst (forkEpicState ''c'' ''t'' ''m7'' diverged_world) = Inr () \<and>
   fst (getEpicState ''t'' (Some ''m7'') None counter_reducer
          (snd (forkEpicState ''c'' ''t'' ''m7'' diverged_world))) = Inr (VNum 1) \<and>
   fst (getEpicState ''c'' (Some ''m7'') None counter_reducer
          (snd (forkEpicState ''c'' ''t'' ''m7'' diverged_world))) = Inr VNull \<and>
   stored_log (snd (forkEpicState ''c'' ''t'' ''m7'' diverged_world)) ''t'' =
     Some [\<lparr>messageId = ''m5'', timestamp = ''t5'', delta = JNum 1\<rparr>]"
    by (simp add: fk getEpicState_fst gt gc st replay_amended_def named_def c a)
  let ?v1 = "mixed_case_world\<lparr>epicEventsCache :=
       [''c'' \<mapsto> [\<lparr>messageId = ''a'', timestamp = ''t1'', delta = VNum 1\<rparr>]]\<rparr>"
  have gm: "getEpicEvents ''c'' mixed_case_world =
      (Inr [\<lparr>messageId = ''a'', timestamp = ''t1'', delta = VNum 1\<rparr>], ?v1)"
    by (simp add: getEpicEvents_def mixed_case_world_def newPluginStateManager_def
        epicEventsPath_def path_join_def path_normalize_def)
  have cm: "collation mixed_case_world = ascii_collation"
    by (simp add: mixed_case_world_def collation_new)
  have 2: "epicEventsCache (snd (forkEpicState ''c'' ''t'' ''B'' mixed_case_world)) ''t'' =
     Some [\<lparr>messageId = ''a'', timestamp = ''t1'', delta = VNum 1\<rparr>]"
    by (simp add: forkEpicState_def gm localeCompare_def cm ascii_collation_mixed_case
        saveEpicEvents_def logger_def)
  have 3: "filter (\<lambda>e. messageId e \<le> ''B'')
      [\<lparr>messageId = ''a'', timestamp = ''t1'', delta = VNum 1\<rparr>] = []"
    by simp
  from 1 2 3 show ?thesis by blast
qed

lemma fork_empty_bound:
  "fst (forkEpicState ''c'' ''t'' '''' scenario_world) = Inr () \<and>
   fst (getEpicState ''t'' (Some '''') None counter_reducer
          (snd (forkEpicState ''c'' ''t'' '''' scenario_world))) = Inr VNull \<and>
   fst (getEpicState ''c'' (Some '''') None counter_reducer
          (snd (forkEpicState ''c'' ''t'' '''' scenario_world))) = Inr (VNum 3)"
proof -
  let ?events = "[\<lparr>messageId = ''m1'', timestamp = ''t1'', delta = VNum 1\<rparr>,
          \<lparr>messageId = ''m2'', timestamp = ''t2'', delta = VNum 1\<rparr>,
          \<lparr>messageId = ''m3'', timestamp = ''t3'', delta = VNum 1\<rparr>]"
  let ?w1 = "scenario_world\<lparr>epicEventsCache := [''c'' \<mapsto> ?events]\<rparr>"
  have a: "ascii_collation ''m1'' [] = 1" "ascii_collation ''m2'' [] = 1"
    "ascii_collation ''m3'' [] = 1"
    by (simp_all add: ascii_collation_def to_lower_def)
  have fk: "forkEpicState ''c'' ''t'' '''' scenario_world = (Inr (), ?w1)"
    by (simp add: forkEpicState_def scenario_events localeCompare_def scenario_collation a)
  have gt: "fst (getEpicEvents ''t'' ?w1) = Inr []"
    by (simp add: getEpicEvents_def scenario_world_def epicEventsPath_def newPluginStateManager_def
        path_join_def path_normalize_def)
  have gc: "fst (getEpicEvents ''c'' ?w1) = Inr ?events"
    by (simp add: getEpicEvents_def)
  show ?thesis
    by (simp add: fk getEpicState_fst gt gc replay_amended_def named_def)
qed

lemma fork_unsorted_parent:
  "fst (forkEpicState ''c'' ''t'' ''m2'' unsorted_world) = Inr () \<and>
   fst (getEpicState ''t'' (Some ''m2'') None counter_reducer
          (snd (forkEpicState ''c'' ''t'' ''m2'' unsorted_world))) = Inr (VNum 1) \<and>
   fst (getEpicState ''c'' (Some ''m2'') None counter_reducer
          (snd (forkEpicState ''c'' ''t'' ''m2'' unsorted_world))) = Inr VNull"
proof -
  let ?events = "[\<lparr>messageId = ''m3'', timestamp = ''t3'', delta = VNum 1\<rparr>,
          \<lparr>messageId = ''m1'', timestamp = ''t1'', delta = VNum 1\<rparr>]"
  let ?w1 = "unsorted_world\<lparr>epicEventsCache := [''c'' \<mapsto> ?events]\<rparr>"
  have c: "collation unsorted_world = ascii_collation"
    by (simp add: unsorted_world_def collation_new)
  have a: "ascii_collation ''m3'' ''m2'' = 1" "ascii_collation ''m1'' ''m2'' = - 1"
    by (simp_all add: ascii_collation_def to_lower_def)
  have g: "getEpicEvents ''c'' unsorted_world = (Inr ?events, ?w1)"
    by (simp add: getEpicEvents_def unsorted_world_def newPluginStateManager_def
        epicEventsPath_def path_join_def path_normalize_def)
  have fk: "epicEventsCache (snd (forkEpicState ''c'' ''t'' ''m2'' unsorted_world)) =
      [''c'' \<mapsto> ?events,
       ''t'' \<mapsto> [\<lparr>messageId = ''m1'', timestamp = ''t1'', delta = VNum 1\<rparr>]]"
    "fst (forkEpicState ''c'' ''t'' ''m2'' unsorted_world) = Inr ()"
    "collation (snd (forkEpicState ''c'' ''t'' ''m2'' unsorted_world)) = ascii_collation"
    by (simp_all add: forkEpicState_def g localeCompare_def saveEpicEvents_def logger_def c a)
  show ?thesis
    by (simp add: fk getEpicState_fst getEpicEvents_def replay_amended_def named_def a)
qed

section \<open>Identifiers in paths\<close>

lemma getChannelState_direct_error:
  assumes "fst (getChannelState x None w) = Inl e"
  shows "e = CorruptData"
proof (cases "channelCache w x")
  case (Some r)
  with assms show ?thesis by (simp add: getChannelState_cached)
next
  case None
  show ?thesis
  proof (cases "files w (channelPath w x)")
    case fNone: None
    with None assms show ?thesis by (simp add: getChannelState_missing)
  next
    case (Some f)
    show ?thesis
    proof (cases "\<exists>d. f = ChannelFile d")
      case True
      then obtain d where "f = ChannelFile d" ..
      with None Some assms show ?thesis by (simp add: getChannelState_file)
    next
      case False
      with None Some assms show ?thesis by (simp add: getChannelState_unreadable)
    qed
  qed
qed

lemma getChannelState_error:
  assumes "fst (getChannelState c inh w) = Inl e"
  shows "e = CorruptData"
proof (cases "channelCache w c")
  case (Some r)
  with assms show ?thesis by (simp add: getChannelState_cached)
next
  case None
  show ?thesis
  proof (cases "files w (channelPath w c)")
    case (Some f)
    show ?thesis
    proof (cases "\<exists>d. f = ChannelFile d")
      case True
      then obtain d where "f = ChannelFile d" ..
      with None Some assms show ?thesis by (simp add: getChannelState_file)
    next
      case False
      with None Some assms show ?thesis by (simp add: getChannelState_unreadable)
    qed
  next
    case fNone: None
    have par: "e = CorruptData" if "fst (case named (parent_of inh) of
        Some parentId \<Rightarrow>
          (case getChannelState parentId None w1 of
             (Inl e, w2) \<Rightarrow> (Inl e, w2)
           | (Inr parent, w2) \<Rightarrow>
               if truthy (state parent) then
                 (Inr \<lparr>state = state parent,
                       metadata = (metadata parent)\<lparr>parentChannelId := Some parentId\<rparr>\<rparr>,
                  logger LDebug ''Inheriting channel state from parent channel'' w2)
               else (Inr noState, w2))
      | None \<Rightarrow> (Inr noState, w1)) = Inl e" for w1
    proof (cases "named (parent_of inh)")
      case None
      with that show ?thesis by simp
    next
      case (Some parentId)
      obtain r w2 where g: "getChannelState parentId None w1 = (r, w2)"
        by (cases "getChannelState parentId None w1")
      show ?thesis
      proof (cases r)
        case (Inl e')
        with Some g that have "e' = e" by simp
        with Inl g getChannelState_direct_error [of parentId w1 e] show ?thesis by simp
      next
        case (Inr parent)
        with Some g that show ?thesis by (simp split: if_splits)
      qed
    qed
    show ?thesis
    proof (cases "named (historyOrigin_of inh)")
      case oNone: None
      with None fNone assms par [of w] show ?thesis
        by (simp add: getChannelState_inherit)
    next
      case (Some originId)
      obtain r w1 where g: "getChannelState originId None w = (r, w1)"
        by (cases "getChannelState originId None w")
      show ?thesis
      proof (cases r)
        case (Inl e')
        with None fNone Some g assms have "e' = e" by (simp add: getChannelState_inherit)
        with Inl g getChannelState_direct_error [of originId w e] show ?thesis by simp
      next
        case (Inr origin)
        with None fNone Some g assms par [of w1] show ?thesis
          by (simp add: getChannelState_inherit split: if_splits)
      qed
    qed
  qed
qed

lemma getEpicEvents_error:
  assumes "fst (getEpicEvents x w) = Inl e"
  shows "e = CorruptData"
  using assms
  by (simp add: getEpicEvents_def split_beta split: option.splits stored_file.splits)

lemma getGlobalState_error:
  assumes "fst (getGlobalState w) = Inl e"
  shows "e = CorruptData"
  using assms
  by (simp add: getGlobalState_def split_beta split: option.splits stored_file.splits if_splits)

lemma setChannelState_error:
  assumes "fst (setChannelState c v m w) = Inl e"
  shows "e = CorruptData"
proof -
  obtain r w1 where g: "getChannelState c None w = (r, w1)"
    by (cases "getChannelState c None w")
  show ?thesis
  proof (cases r)
    case (Inl e')
    with g assms have "e' = e" by (simp add: setChannelState_fails)
    with Inl g getChannelState_direct_error [of c w e] show ?thesis by simp
  next
    case (Inr existing)
    with g assms show ?thesis by (simp add: setChannelState_result)
  qed
qed

lemma recordEpicEvent_error:
  assumes "fst (recordEpicEvent c m d now w) = Inl e"
  shows "e = CorruptData"
proof -
  obtain r w1 where g: "getEpicEvents c w = (r, w1)" by (cases "getEpicEvents c w")
  show ?thesis
  proof (cases r)
    case (Inl e')
    with g assms have "e' = e" by (simp add: recordEpicEvent_def)
    with Inl g getEpicEvents_error [of c w e] show ?thesis by simp
  next
    case (Inr events)
    with g assms show ?thesis by (simp add: recordEpicEvent_def Let_def)
  qed
qed

lemma getEpicState_error:
  assumes "fst (getEpicState c upTo live reducer w) = Inl e"
  shows "e = CorruptData"
proof -
  obtain r w1 where g: "getEpicEvents c w = (r, w1)" by (cases "getEpicEvents c w")
  show ?thesis
  proof (cases r)
    case (Inl e')
    with g assms have "e' = e" by (simp add: getEpicState_def)
    with Inl g getEpicEvents_error [of c w e] show ?thesis by simp
  next
    case (Inr events)
    with g assms show ?thesis by (simp add: getEpicState_def split_beta)
  qed
qed

lemma forkEpicState_error:
  assumes "fst (forkEpicState p c M w) = Inl e"
  shows "e = CorruptData"
proof -
  obtain r w1 where g: "getEpicEvents p w = (r, w1)" by (cases "getEpicEvents p w")
  show ?thesis
  proof (cases r)
    case (Inl e')
    with g assms have "e' = e" by (simp add: forkEpicState_def)
    with Inl g getEpicEvents_error [of p w e] show ?thesis by simp
  next
    case (Inr events)
    with g assms show ?thesis by (simp add: forkEpicState_def Let_def split: if_splits)
  qed
qed

lemma getChannelState_direct_path:
  "channelPath (snd (getChannelState x None w)) y = channelPath w y"
  using getChannelState_direct_reads_only [of w x] by (rule reads_only_path)

lemma setChannelState_written:
  assumes "setChannelState c v m w = (Inr (), w')"
  shows "\<exists>md. files w' (channelPath w c) =
           Some (ChannelFile \<lparr>state = JSON_stringify v, metadata = md\<rparr>)"
proof -
  obtain r w1 where g: "getChannelState c None w = (r, w1)"
    by (cases "getChannelState c None w")
  from g have p: "channelPath w1 c = channelPath w c"
    using getChannelState_direct_path [of c w c] by simp
  show ?thesis
  proof (cases r)
    case (Inl e)
    with g assms show ?thesis by (simp add: setChannelState_fails)
  next
    case (Inr existing)
    with g assms p show ?thesis
      by (auto simp: setChannelState_result logger_fields)
  qed
qed

lemma setGlobalState_written:
  "files (snd (setGlobalState v w)) (globalPath w) = Some (GlobalFile (JSON_stringify v))"
  by (simp add: setGlobalState_def logger_fields)

lemma recordEpicEvent_written:
  assumes "recordEpicEvent c m d now w = (Inr (), w')"
  shows "\<exists>events. epicEventsCache w' c = Some events \<and>
         files w' (epicEventsPath w' c) = Some (EpicFile (map stringify_event events)) \<and>
         filter (\<lambda>e. messageId e = m) events = [\<lparr>messageId = m, timestamp = now, delta = d\<rparr>]"
proof -
  from recordEpicEvent_log [OF assms] obtain events events' where
    b: "events' = array_sort (\<lambda>a b. collation w (messageId a) (messageId b))
             (filter (\<lambda>e. messageId e \<noteq> m) events @
              [\<lparr>messageId = m, timestamp = now, delta = d\<rparr>])"
    and c: "epicEventsCache w' c = Some events'"
    and d: "files w' (epicEventsPath w' c) = Some (EpicFile (map stringify_event events'))"
    by blast
  have "filter (\<lambda>e. messageId e = m) events' = [\<lparr>messageId = m, timestamp = now, delta = d\<rparr>]"
    unfolding b by (rule filter_record)
  with c d show ?thesis by blast
qed

lemma recordEpicEvent_path:
  assumes "recordEpicEvent c m d now w = (r, w')"
  shows "epicEventsPath w' x = epicEventsPath w x"
proof -
  obtain r1 w1 where g: "getEpicEvents c w = (r1, w1)" by (cases "getEpicEvents c w")
  note fr = getEpicEvents_frame(3,4) [OF g]
  from g assms fr show ?thesis
    by (cases r1)
       (auto simp: recordEpicEvent_def saveEpicEvents_def logger_def epicEventsPath_def Let_def)
qed

lemma recordEpicEvent_written_at:
  assumes "recordEpicEvent c m d now w = (Inr (), w')"
  shows "\<exists>events. files w' (epicEventsPath w c) = Some (EpicFile (map stringify_event events)) \<and>
           filter (\<lambda>e. messageId e = m) events = [\<lparr>messageId = m, timestamp = now, delta = d\<rparr>]"
  using recordEpicEvent_written [OF assms] recordEpicEvent_path [OF assms, of c] by auto

text \<open>
  C8 (as amended). No path mapping and no state operation checks an identifier: for
  every plugin id and channel id, with or without a path separator, the global,
  channel and epic paths are \<open>path.join\<close> of the cache directory, \<open>plugins\<close>, the plugin
  id, the scope and the file name built from the channel id; no state operation
  fails with \<open>InvalidIdentifier\<close>; and a write that returns has put its document in
  the file at that path.
\<close>

theorem no_identifier_check:
  "globalPath w = path_join [cacheDir w, ''plugins'', pluginId w, ''global.json''] \<and>
   channelPath w channelId =
     path_join [cacheDir w, ''plugins'', pluginId w, ''channel'', channelId @ ''.json''] \<and>
   epicEventsPath w channelId =
     path_join [cacheDir w, ''plugins'', pluginId w, ''epic'', channelId @ ''.json''] \<and>
   fst (getGlobalState w) \<noteq> Inl InvalidIdentifier \<and>
   fst (setGlobalState v w) \<noteq> Inl InvalidIdentifier \<and>
   fst (getChannelState channelId inh w) \<noteq> Inl InvalidIdentifier \<and>
   fst (setChannelState channelId v msgId w) \<noteq> Inl InvalidIdentifier \<and>
   fst (getEpicEvents channelId w) \<noteq> Inl InvalidIdentifier \<and>
   fst (recordEpicEvent channelId m v now w) \<noteq> Inl InvalidIdentifier \<and>
   fst (getEpicState channelId upTo live reducer w) \<noteq> Inl InvalidIdentifier \<and>
   fst (forkEpicState parent channelId m w) \<noteq> Inl InvalidIdentifier \<and>
   files (snd (setGlobalState v w)) (globalPath w) = Some (GlobalFile (JSON_stringify v)) \<and>
   (\<forall>w'. setChannelState channelId v msgId w = (Inr (), w') \<longrightarrow>
      (\<exists>md. files w' (channelPath w channelId) =
         Some (ChannelFile \<lparr>state = JSON_stringify v, metadata = md\<rparr>))) \<and>
   (\<forall>w'. recordEpicEvent channelId m v now w = (Inr (), w') \<longrightarrow>
      (\<exists>events.
         files w' (epicEventsPath w channelId) = Some (EpicFile (map stringify_event events)) \<and>
         filter (\<lambda>e. messageId e = m) events =
           [\<lparr>messageId = m, timestamp = now, delta = v\<rparr>]))"
proof -
  have p1: "globalPath w = path_join [cacheDir w, ''plugins'', pluginId w, ''global.json'']"
    by (simp add: globalPath_def)
  have p2: "channelPath w channelId =
     path_join [cacheDir w, ''plugins'', pluginId w, ''channel'', channelId @ ''.json'']"
    by (simp add: channelPath_def)
  have p3: "epicEventsPath w channelId =
     path_join [cacheDir w, ''plugins'', pluginId w, ''epic'', channelId @ ''.json'']"
    by (simp add: epicEventsPath_def)
  have e1: "fst (getGlobalState w) \<noteq> Inl InvalidIdentifier"
    using getGlobalState_error [of w InvalidIdentifier] by auto
  have e2: "fst (setGlobalState v w) \<noteq> Inl InvalidIdentifier"
    by (simp add: setGlobalState_def)
  have e3: "fst (getChannelState channelId inh w) \<noteq> Inl InvalidIdentifier"
    using getChannelState_error [of channelId inh w InvalidIdentifier] by auto
  have e4: "fst (setChannelState channelId v msgId w) \<noteq> Inl InvalidIdentifier"
    using setChannelState_error [of channelId v msgId w InvalidIdentifier] by auto
  have e5: "fst (getEpicEvents channelId w) \<noteq> Inl InvalidIdentifier"
    using getEpicEvents_error [of channelId w InvalidIdentifier] by auto
  have e6: "fst (recordEpicEvent channelId m v now w) \<noteq> Inl InvalidIdentifier"
    using recordEpicEvent_error [of channelId m v now w InvalidIdentifier] by auto
  have e7: "fst (getEpicState channelId upTo live reducer w) \<noteq> Inl InvalidIdentifier"
    using getEpicState_error [of channelId upTo live reducer w InvalidIdentifier] by auto
  have e8: "fst (forkEpicState parent channelId m w) \<noteq> Inl InvalidIdentifier"
    using forkEpicState_error [of parent channelId m w InvalidIdentifier] by auto
  have w1: "files (snd (setGlobalState v w)) (globalPath w) = Some (GlobalFile (JSON_stringify v))"
    by (rule setGlobalState_written)
  have w2: "\<forall>w'. setChannelState channelId v msgId w = (Inr (), w') \<longrightarrow>
      (\<exists>md. files w' (channelPath w channelId) =
         Some (ChannelFile \<lparr>state = JSON_stringify v, metadata = md\<rparr>))"
    by (intro allI impI) (rule setChannelState_written)
  have w3: "\<forall>w'. recordEpicEvent channelId m v now w = (Inr (), w') \<longrightarrow>
      (\<exists>events.
         files w' (epicEventsPath w channelId) = Some (EpicFile (map stringify_event events)) \<and>
         filter (\<lambda>e. messageId e = m) events =
           [\<lparr>messageId = m, timestamp = now, delta = v\<rparr>])"
    by (intro allI impI) (rule recordEpicEvent_written_at)
  from p1 p2 p3 e1 e2 e3 e4 e5 e6 e7 e8 w1 w2 w3 show ?thesis by (intro conjI)
qed

lemma fresh_world_fields:
  "cacheDir fresh_world = ''cache''"
  "pluginId fresh_world = ''p''"
  "files fresh_world = Map.empty"
  "nextObject fresh_world = 0"
  "globalCache fresh_world = VNull"
  "channelCache fresh_world = Map.empty"
  "epicEventsCache fresh_world = Map.empty"
  "logged fresh_world = []"
  by (simp_all add: fresh_world_def newPluginStateManager_def)

lemma fresh_world_paths:
  "channelPath fresh_world ''a/b'' = ''cache/plugins/p/channel/a/b.json''"
  "epicEventsPath fresh_world ''a/b'' = ''cache/plugins/p/epic/a/b.json''"
  "channelPath fresh_world ''c'' = ''cache/plugins/p/channel/c.json''"
  "epicEventsPath fresh_world ''c'' = ''cache/plugins/p/epic/c.json''"
  "channelPath fresh_world ''../../q/channel/x'' = ''cache/plugins/q/channel/x.json''"
  by (simp_all add: channelPath_def epicEventsPath_def fresh_world_fields path_join_def
      path_normalize_def)

theorem no_identifier_check_witness:
  "channelPath fresh_world ''a/b'' = ''cache/plugins/p/channel/a/b.json'' \<and>
   epicEventsPath fresh_world ''a/b'' = ''cache/plugins/p/epic/a/b.json'' \<and>
   fst (setChannelState ''a/b'' (VNum 1) None fresh_world) \<noteq> Inl InvalidIdentifier \<and>
   fst (recordEpicEvent ''a/b'' ''m'' (VNum 1) ''t'' fresh_world) \<noteq> Inl InvalidIdentifier"
proof -
  note t = no_identifier_check [of fresh_world "''a/b''" "VNum 1" None None "''m''" "''t''"
      None None counter_reducer "''c''"]
  from t have 1: "fst (setChannelState ''a/b'' (VNum 1) None fresh_world) \<noteq> Inl InvalidIdentifier"
    by blast
  from t have 2: "fst (recordEpicEvent ''a/b'' ''m'' (VNum 1) ''t'' fresh_world) \<noteq> Inl InvalidIdentifier"
    by blast
  from 1 2 fresh_world_paths(1,2) show ?thesis by blast
qed

text \<open>
  C8 as stated fails: with the channel id \<open>a/b\<close>, and with the plugin id \<open>x/y\<close>, the
  operations return normally and the file is written below the directory the
  separator opens; a channel id with \<open>..\<close> segments reaches the files of another
  plugin.
\<close>

theorem path_separator_counterexample:
  "fst (setChannelState ''a/b'' (VNum 1) None fresh_world) = Inr () \<and>
   files (snd (setChannelState ''a/b'' (VNum 1) None fresh_world))
       ''cache/plugins/p/channel/a/b.json'' =
     Some (ChannelFile \<lparr>state = JNum 1,
       metadata = \<lparr>lastModifiedMessageId = None, parentChannelId = None,
                   historyOriginChannelId = None\<rparr>\<rparr>) \<and>
   fst (recordEpicEvent ''a/b'' ''m1'' (VNum 1) ''t1'' fresh_world) = Inr () \<and>
   globalPath (newPluginStateManager ''cache'' ''x/y'' Map.empty) =
     ''cache/plugins/x/y/global.json'' \<and>
   fst (setGlobalState (VNum 1) (newPluginStateManager ''cache'' ''x/y'' Map.empty)) = Inr () \<and>
   channelPath fresh_world ''../../q/channel/x'' = ''cache/plugins/q/channel/x.json''"
proof -
  have g: "getChannelState ''a/b'' None fresh_world = (Inr noState, fresh_world)"
    by (rule getChannelState_missing) (simp_all add: fresh_world_fields)
  have 1: "fst (setChannelState ''a/b'' (VNum 1) None fresh_world) = Inr ()"
    by (simp add: setChannelState_result [OF g])
  have 2: "files (snd (setChannelState ''a/b'' (VNum 1) None fresh_world))
       ''cache/plugins/p/channel/a/b.json'' =
     Some (ChannelFile \<lparr>state = JNum 1,
       metadata = \<lparr>lastModifiedMessageId = None, parentChannelId = None,
                   historyOriginChannelId = None\<rparr>\<rparr>)"
    by (simp add: setChannelState_result [OF g] logger_fields fresh_world_paths noState_def
        named_def)
  have e: "getEpicEvents ''a/b'' fresh_world = (Inr [], fresh_world)"
    by (rule getEpicEvents_missing) (simp_all add: fresh_world_fields)
  have 3: "fst (recordEpicEvent ''a/b'' ''m1'' (VNum 1) ''t1'' fresh_world) = Inr ()"
    by (simp add: recordEpicEvent_def e Let_def)
  have 4: "globalPath (newPluginStateManager ''cache'' ''x/y'' Map.empty) =
     ''cache/plugins/x/y/global.json''"
    by (simp add: globalPath_def newPluginStateManager_def path_join_def path_normalize_def)
  have 5: "fst (setGlobalState (VNum 1) (newPluginStateManager ''cache'' ''x/y'' Map.empty)) = Inr ()"
    by (simp add: setGlobalState_def)
  from 1 2 3 4 5 fresh_world_paths(5) show ?thesis by blast
qed

section \<open>Contexts without a reducer\<close>

lemma channel_read_refl: "channel_read w w"
  by (simp add: channel_read_def)

lemma channel_read_trans:
  assumes "channel_read w w1" "channel_read w1 w2"
  shows "channel_read w w2"
proof -
  from assms obtain l1 l2 where "logged w1 = logged w @ l1" "logged w2 = logged w1 @ l2"
    unfolding channel_read_def by blast
  then have "logged w2 = logged w @ (l1 @ l2)" by simp
  then have "\<exists>l. logged w2 = logged w @ l" ..
  with assms show ?thesis by (simp add: channel_read_def)
qed

lemma channel_read_logger: "channel_read w w' \<Longrightarrow> channel_read w (logger lvl msg w')"
  by (auto simp: channel_read_def logger_def)

lemma getChannelState_direct_channel_read: "channel_read w (snd (getChannelState x None w))"
proof (cases "channelCache w x")
  case (Some r)
  then show ?thesis by (simp add: getChannelState_cached channel_read_refl)
next
  case None
  show ?thesis
  proof (cases "files w (channelPath w x)")
    case fNone: None
    with None show ?thesis by (simp add: getChannelState_missing channel_read_refl)
  next
    case (Some f)
    show ?thesis
    proof (cases "\<exists>d. f = ChannelFile d")
      case True
      then obtain d where "f = ChannelFile d" ..
      with None Some show ?thesis
        by (simp add: getChannelState_file channel_read_def)
    next
      case False
      with None Some show ?thesis
        by (simp add: getChannelState_unreadable channel_read_logger channel_read_refl)
    qed
  qed
qed

lemma getChannelState_channel_read: "channel_read w (snd (getChannelState c inh w))"
proof (cases "channelCache w c")
  case (Some r)
  then show ?thesis by (simp add: getChannelState_cached channel_read_refl)
next
  case None
  show ?thesis
  proof (cases "files w (channelPath w c)")
    case (Some f)
    show ?thesis
    proof (cases "\<exists>d. f = ChannelFile d")
      case True
      then obtain d where "f = ChannelFile d" ..
      with None Some show ?thesis
        by (simp add: getChannelState_file channel_read_def)
    next
      case False
      with None Some show ?thesis
        by (simp add: getChannelState_unreadable channel_read_logger channel_read_refl)
    qed
  next
    case fNone: None
    have par: "channel_read w (snd (case named (parent_of inh) of
        Some parentId \<Rightarrow>
          (case getChannelState parentId None w1 of
             (Inl e, w2) \<Rightarrow> (Inl e, w2)
           | (Inr parent, w2) \<Rightarrow>
               if truthy (state parent) then
                 (Inr \<lparr>state = state parent,
                       metadata = (metadata parent)\<lparr>parentChannelId := Some parentId\<rparr>\<rparr>,
                  logger LDebug ''Inheriting channel state from parent channel'' w2)
               else (Inr noState, w2))
      | None \<Rightarrow> (Inr noState, w1)))" if w1: "channel_read w w1" for w1
    proof (cases "named (parent_of inh)")
      case None
      with w1 show ?thesis by simp
    next
      case (Some parentId)
      obtain r w2 where g: "getChannelState parentId None w1 = (r, w2)"
        by (cases "getChannelState parentId None w1")
      with getChannelState_direct_channel_read [of w1 parentId] have "channel_read w1 w2" by simp
      with w1 have "channel_read w w2" by (rule channel_read_trans)
      with Some g show ?thesis by (cases r) (simp_all add: channel_read_logger)
    qed
    show ?thesis
    proof (cases "named (historyOrigin_of inh)")
      case oNone: None
      with None fNone par [OF channel_read_refl] show ?thesis
        by (simp add: getChannelState_inherit)
    next
      case (Some originId)
      obtain r w1 where g: "getChannelState originId None w = (r, w1)"
        by (cases "getChannelState originId None w")
      with getChannelState_direct_channel_read [of w originId] have w1: "channel_read w w1" by simp
      show ?thesis
      proof (cases r)
        case (Inl e)
        with None fNone Some g w1 show ?thesis by (simp add: getChannelState_inherit)
      next
        case (Inr origin)
        with None fNone Some g w1 par [OF w1] show ?thesis
          by (simp add: getChannelState_inherit channel_read_logger)
      qed
    qed
  qed
qed

lemma channelPath_logger: "channelPath (logger lvl msg w) x = channelPath w x"
  by (simp add: channelPath_def logger_fields)

lemma direct_read_logger:
  "fst (getChannelState x None (logger lvl msg w)) = fst (getChannelState x None w)"
proof (cases "channelCache w x")
  case (Some r)
  then have "channelCache (logger lvl msg w) x = Some r" by (simp add: logger_fields)
  with Some show ?thesis by (simp add: getChannelState_cached)
next
  case None
  then have n: "channelCache (logger lvl msg w) x = None" by (simp add: logger_fields)
  show ?thesis
  proof (cases "files w (channelPath w x)")
    case fNone: None
    then have "files (logger lvl msg w) (channelPath (logger lvl msg w) x) = None"
      by (simp add: logger_fields channelPath_logger)
    with n None fNone show ?thesis by (simp add: getChannelState_missing)
  next
    case (Some f)
    then have s: "files (logger lvl msg w) (channelPath (logger lvl msg w) x) = Some f"
      by (simp add: logger_fields channelPath_logger)
    show ?thesis
    proof (cases "\<exists>d. f = ChannelFile d")
      case True
      then obtain d where d: "f = ChannelFile d" ..
      from n s d have "fst (getChannelState x None (logger lvl msg w)) =
          Inr \<lparr>state = fst (JSON_parse (nextObject w) (state d)), metadata = metadata d\<rparr>"
        by (simp add: getChannelState_file logger_fields)
      moreover from None Some d have "fst (getChannelState x None w) =
          Inr \<lparr>state = fst (JSON_parse (nextObject w) (state d)), metadata = metadata d\<rparr>"
        by (simp add: getChannelState_file)
      ultimately show ?thesis by simp
    next
      case False
      with n s None Some show ?thesis by (simp add: getChannelState_unreadable)
    qed
  qed
qed

lemma getState_epic_no_reducer:
  "getState (createStateContext f plugin channelId cur inh None) ScopeEpic w =
     getState (createStateContext f plugin channelId cur inh None) ScopeChannel
       (logger LWarn ''Epic reducer not provided, falling back to channel state'' w)"
  by (simp add: getState_def createStateContext_def)

lemma getState_channel:
  "getState (createStateContext f plugin channelId cur inh r) ScopeChannel w =
     state_of (getChannelState channelId inh w)"
  by (simp add: getState_def createStateContext_def)

lemma getStateAtMessage_no_reducer:
  "getStateAtMessage (createStateContext f plugin channelId cur inh None) msgId w =
     (Inr VNull, logger LWarn ''getStateAtMessage requires epic scope with reducer'' w)"
  by (simp add: getStateAtMessage_def createStateContext_def)

lemma setState_epic:
  "setState (createStateContext f plugin channelId cur inh r) ScopeEpic v now w =
     recordEpicEvent channelId cur v now w"
  by (simp add: setState_def createStateContext_def)

lemma getState_epic_state:
  "getState (createStateContext f plugin channelId cur inh None) ScopeEpic w =
     state_of (getChannelState channelId inh
       (logger LWarn ''Epic reducer not provided, falling back to channel state'' w))"
  by (simp add: getState_def createStateContext_def)

lemma state_of_fst: "fst r = Inr res \<Longrightarrow> fst (state_of r) = Inr (state res)"
  by (cases r) (simp add: state_of_def)

lemma state_of_snd: "snd (state_of r) = snd r"
  by (cases r) (simp add: state_of_def split: sum.splits)

text \<open>
  C9. For every plugin context bound without an epic reducer: \<open>getState\<close> for the epic
  scope logs a warning and then returns what \<open>getState\<close> for the channel scope
  returns, the state of \<open>getChannelState\<close> with the inheritance information of the
  context, and no replayed state: the state the manager holds for the channel in its
  cache, else the parsed state of the file of the channel, else for a channel with
  no stored state the truthy state read from the history origin, else the one read
  from the parent, else null; the warning does not change what a channel reads as,
  the call reads no event log and writes no file. \<open>getStateAtMessage\<close> logs a warning
  and returns null; and \<open>setState\<close> for the epic scope is the \<open>recordEpicEvent\<close> of the
  value at the current message id all the same, after which the log of the channel
  holds for that id exactly the event with the value.
\<close>

theorem no_reducer_fallback:
  "getState (createStateContext f plugin channelId cur inh None) ScopeEpic w =
     getState (createStateContext f plugin channelId cur inh None) ScopeChannel
       (logger LWarn ''Epic reducer not provided, falling back to channel state'' w) \<and>
   getState (createStateContext f plugin channelId cur inh None) ScopeChannel w =
     state_of (getChannelState channelId inh w) \<and>
   getStateAtMessage (createStateContext f plugin channelId cur inh None) msgId w =
     (Inr VNull, logger LWarn ''getStateAtMessage requires epic scope with reducer'' w) \<and>
   setState (createStateContext f plugin channelId cur inh None) ScopeEpic v now w =
     recordEpicEvent channelId cur v now w \<and>
   (\<forall>w'. setState (createStateContext f plugin channelId cur inh None) ScopeEpic v now w =
           (Inr (), w') \<longrightarrow>
      (\<exists>events. epicEventsCache w' channelId = Some events \<and>
         files w' (epicEventsPath w' channelId) = Some (EpicFile (map stringify_event events)) \<and>
         filter (\<lambda>e. messageId e = cur) events =
           [\<lparr>messageId = cur, timestamp = now, delta = v\<rparr>])) \<and>
   (\<forall>r. channelCache w channelId = Some r \<longrightarrow>
      getState (createStateContext f plugin channelId cur inh None) ScopeEpic w =
        (Inr (state r),
         logger LWarn ''Epic reducer not provided, falling back to channel state'' w)) \<and>
   (\<forall>d. channelCache w channelId = None \<and>
        files w (channelPath w channelId) = Some (ChannelFile d) \<longrightarrow>
      fst (getState (createStateContext f plugin channelId cur inh None) ScopeEpic w) =
        Inr (fst (JSON_parse (nextObject w) (state d)))) \<and>
   (channelCache w channelId = None \<and> files w (channelPath w channelId) = None \<longrightarrow>
      (\<forall>originId origin w1.
         named (historyOrigin_of inh) = Some originId \<and>
         getChannelState originId None
           (logger LWarn ''Epic reducer not provided, falling back to channel state'' w) =
           (Inr origin, w1) \<and>
         truthy (state origin) \<longrightarrow>
         fst (getState (createStateContext f plugin channelId cur inh None) ScopeEpic w) =
           Inr (state origin)) \<and>
      (\<forall>w1 parentId parent w2.
         skipped (historyOrigin_of inh)
           (logger LWarn ''Epic reducer not provided, falling back to channel state'' w) w1 \<and>
         named (parent_of inh) = Some parentId \<and>
         getChannelState parentId None w1 = (Inr parent, w2) \<and> truthy (state parent) \<longrightarrow>
         fst (getState (createStateContext f plugin channelId cur inh None) ScopeEpic w) =
           Inr (state parent)) \<and>
      (\<forall>w1 w2.
         skipped (historyOrigin_of inh)
           (logger LWarn ''Epic reducer not provided, falling back to channel state'' w) w1 \<and>
         skipped (parent_of inh) w1 w2 \<longrightarrow>
         fst (getState (createStateContext f plugin channelId cur inh None) ScopeEpic w) =
           Inr VNull)) \<and>
   (\<forall>x. fst (getChannelState x None
              (logger LWarn ''Epic reducer not provided, falling back to channel state'' w)) =
         fst (getChannelState x None w)) \<and>
   (\<exists>l. logged (snd (getState (createStateContext f plugin channelId cur inh None) ScopeEpic w)) =
         logged w @ (LWarn, ''Epic reducer not provided, falling back to channel state'') # l) \<and>
   epicEventsCache (snd (getState (createStateContext f plugin channelId cur inh None) ScopeEpic w)) =
     epicEventsCache w \<and>
   files (snd (getState (createStateContext f plugin channelId cur inh None) ScopeEpic w)) =
     files w"
proof -
  let ?ctx = "createStateContext f plugin channelId cur inh None"
  let ?ww = "logger LWarn ''Epic reducer not provided, falling back to channel state'' w"
  note gs = getState_epic_state [of f plugin channelId cur inh w]
  have 1: "getState ?ctx ScopeEpic w = getState ?ctx ScopeChannel ?ww"
    by (rule getState_epic_no_reducer)
  have 2: "getState ?ctx ScopeChannel w = state_of (getChannelState channelId inh w)"
    by (rule getState_channel)
  have 3: "getStateAtMessage ?ctx msgId w =
     (Inr VNull, logger LWarn ''getStateAtMessage requires epic scope with reducer'' w)"
    by (rule getStateAtMessage_no_reducer)
  have 4: "setState ?ctx ScopeEpic v now w = recordEpicEvent channelId cur v now w"
    by (rule setState_epic)
  have "\<exists>events. epicEventsCache w' channelId = Some events \<and>
         files w' (epicEventsPath w' channelId) = Some (EpicFile (map stringify_event events)) \<and>
         filter (\<lambda>e. messageId e = cur) events =
           [\<lparr>messageId = cur, timestamp = now, delta = v\<rparr>]"
    if "setState ?ctx ScopeEpic v now w = (Inr (), w')" for w'
  proof -
    from that have "recordEpicEvent channelId cur v now w = (Inr (), w')"
      by (simp only: setState_epic)
    then show ?thesis by (rule recordEpicEvent_written)
  qed
  then have 5: "\<forall>w'. setState ?ctx ScopeEpic v now w = (Inr (), w') \<longrightarrow>
      (\<exists>events. epicEventsCache w' channelId = Some events \<and>
         files w' (epicEventsPath w' channelId) = Some (EpicFile (map stringify_event events)) \<and>
         filter (\<lambda>e. messageId e = cur) events =
           [\<lparr>messageId = cur, timestamp = now, delta = v\<rparr>])"
    by (intro allI impI)
  have 6: "\<forall>r. channelCache w channelId = Some r \<longrightarrow>
      getState ?ctx ScopeEpic w = (Inr (state r), ?ww)"
  proof (intro allI impI)
    fix r
    assume "channelCache w channelId = Some r"
    then have "channelCache ?ww channelId = Some r" by (simp add: logger_fields)
    then have "getChannelState channelId inh ?ww = (Inr r, ?ww)"
      by (rule getChannelState_cached)
    then show "getState ?ctx ScopeEpic w = (Inr (state r), ?ww)"
      by (simp add: gs state_of_def)
  qed
  have 7: "\<forall>d. channelCache w channelId = None \<and>
        files w (channelPath w channelId) = Some (ChannelFile d) \<longrightarrow>
      fst (getState ?ctx ScopeEpic w) = Inr (fst (JSON_parse (nextObject w) (state d)))"
  proof (intro allI impI)
    fix d
    assume a: "channelCache w channelId = None \<and>
        files w (channelPath w channelId) = Some (ChannelFile d)"
    then have "channelCache ?ww channelId = None"
      and "files ?ww (channelPath ?ww channelId) = Some (ChannelFile d)"
      by (simp_all add: logger_fields channelPath_logger)
    then have "fst (getChannelState channelId inh ?ww) =
        Inr \<lparr>state = fst (JSON_parse (nextObject w) (state d)), metadata = metadata d\<rparr>"
      by (simp add: getChannelState_file logger_fields)
    then have "fst (state_of (getChannelState channelId inh ?ww)) =
        Inr (state \<lparr>state = fst (JSON_parse (nextObject w) (state d)), metadata = metadata d\<rparr>)"
      by (rule state_of_fst)
    then show "fst (getState ?ctx ScopeEpic w) = Inr (fst (JSON_parse (nextObject w) (state d)))"
      by (simp add: gs)
  qed
  have 8: "channelCache w channelId = None \<and> files w (channelPath w channelId) = None \<longrightarrow>
      (\<forall>originId origin w1.
         named (historyOrigin_of inh) = Some originId \<and>
         getChannelState originId None ?ww = (Inr origin, w1) \<and> truthy (state origin) \<longrightarrow>
         fst (getState ?ctx ScopeEpic w) = Inr (state origin)) \<and>
      (\<forall>w1 parentId parent w2.
         skipped (historyOrigin_of inh) ?ww w1 \<and> named (parent_of inh) = Some parentId \<and>
         getChannelState parentId None w1 = (Inr parent, w2) \<and> truthy (state parent) \<longrightarrow>
         fst (getState ?ctx ScopeEpic w) = Inr (state parent)) \<and>
      (\<forall>w1 w2.
         skipped (historyOrigin_of inh) ?ww w1 \<and> skipped (parent_of inh) w1 w2 \<longrightarrow>
         fst (getState ?ctx ScopeEpic w) = Inr VNull)"
  proof (intro impI)
    assume "channelCache w channelId = None \<and> files w (channelPath w channelId) = None"
    then have c: "channelCache ?ww channelId = None"
      and f: "files ?ww (channelPath ?ww channelId) = None"
      by (simp_all add: logger_fields channelPath_logger)
    show "(\<forall>originId origin w1.
         named (historyOrigin_of inh) = Some originId \<and>
         getChannelState originId None ?ww = (Inr origin, w1) \<and> truthy (state origin) \<longrightarrow>
         fst (getState ?ctx ScopeEpic w) = Inr (state origin)) \<and>
      (\<forall>w1 parentId parent w2.
         skipped (historyOrigin_of inh) ?ww w1 \<and> named (parent_of inh) = Some parentId \<and>
         getChannelState parentId None w1 = (Inr parent, w2) \<and> truthy (state parent) \<longrightarrow>
         fst (getState ?ctx ScopeEpic w) = Inr (state parent)) \<and>
      (\<forall>w1 w2.
         skipped (historyOrigin_of inh) ?ww w1 \<and> skipped (parent_of inh) w1 w2 \<longrightarrow>
         fst (getState ?ctx ScopeEpic w) = Inr VNull)"
    proof (intro conjI allI impI)
      fix originId origin w1
      assume "named (historyOrigin_of inh) = Some originId \<and>
         getChannelState originId None ?ww = (Inr origin, w1) \<and> truthy (state origin)"
      then have "getChannelState channelId inh ?ww =
         (Inr \<lparr>state = state origin,
               metadata = (metadata origin)\<lparr>historyOriginChannelId := Some originId\<rparr>\<rparr>,
          logger LDebug ''Inheriting channel state from .history origin'' w1)"
        using inherit_origin [OF c f, of inh originId origin w1] by simp
      then show "fst (getState ?ctx ScopeEpic w) = Inr (state origin)"
        by (simp add: gs state_of_def)
    next
      fix w1 parentId parent w2
      assume "skipped (historyOrigin_of inh) ?ww w1 \<and> named (parent_of inh) = Some parentId \<and>
         getChannelState parentId None w1 = (Inr parent, w2) \<and> truthy (state parent)"
      then have "getChannelState channelId inh ?ww =
         (Inr \<lparr>state = state parent,
               metadata = (metadata parent)\<lparr>parentChannelId := Some parentId\<rparr>\<rparr>,
          logger LDebug ''Inheriting channel state from parent channel'' w2)"
        using inherit_parent [OF c f, of inh w1 parentId parent w2] by simp
      then show "fst (getState ?ctx ScopeEpic w) = Inr (state parent)"
        by (simp add: gs state_of_def)
    next
      fix w1 w2
      assume "skipped (historyOrigin_of inh) ?ww w1 \<and> skipped (parent_of inh) w1 w2"
      then have "getChannelState channelId inh ?ww = (Inr noState, w2)"
        using inherit_nothing [OF c f, of inh w1 w2] by simp
      then show "fst (getState ?ctx ScopeEpic w) = Inr VNull"
        by (simp add: gs state_of_def noState_def)
    qed
  qed
  have 9: "\<forall>x. fst (getChannelState x None ?ww) = fst (getChannelState x None w)"
    by (rule allI) (rule direct_read_logger)
  note cr = getChannelState_channel_read [of ?ww channelId inh]
  have 10: "\<exists>l. logged (snd (getState ?ctx ScopeEpic w)) =
         logged w @ (LWarn, ''Epic reducer not provided, falling back to channel state'') # l"
  proof -
    from cr obtain l where "logged (snd (getChannelState channelId inh ?ww)) = logged ?ww @ l"
      unfolding channel_read_def by blast
    then have "logged (snd (getState ?ctx ScopeEpic w)) =
         logged w @ (LWarn, ''Epic reducer not provided, falling back to channel state'') # l"
      by (simp add: gs state_of_snd logger_def)
    then show ?thesis ..
  qed
  have 11: "epicEventsCache (snd (getState ?ctx ScopeEpic w)) = epicEventsCache w"
    using cr by (simp add: gs state_of_snd channel_read_def logger_fields)
  have 12: "files (snd (getState ?ctx ScopeEpic w)) = files w"
    using getChannelState_reads_only [of ?ww channelId inh]
    by (simp add: gs state_of_snd reads_only_def logger_fields)
  from 1 2 3 4 5 6 7 8 9 10 11 12 show ?thesis by (intro conjI)
qed

lemma read_lineage_parent:
  assumes "channelCache v ''P'' = None" "cacheDir v = ''cache''" "pluginId v = ''p''"
    and "files v ''cache/plugins/p/channel/P.json'' =
       Some (ChannelFile \<lparr>state = JObj [(''counter'', JNum 5)],
            metadata = \<lparr>lastModifiedMessageId = Some ''m1'', parentChannelId = None,
                        historyOriginChannelId = None\<rparr>\<rparr>)"
    and "nextObject v = 0"
  shows "\<exists>v2. getChannelState ''P'' None v =
     (Inr \<lparr>state = VObj 0 [(''counter'', JNum 5)],
          metadata = \<lparr>lastModifiedMessageId = Some ''m1'', parentChannelId = None,
                      historyOriginChannelId = None\<rparr>\<rparr>, v2)"
proof -
  have p: "channelPath v ''P'' = ''cache/plugins/p/channel/P.json''"
    using assms(2,3) by (simp add: channelPath_def path_join_def path_normalize_def)
  from assms(4) p have "files v (channelPath v ''P'') =
       Some (ChannelFile \<lparr>state = JObj [(''counter'', JNum 5)],
            metadata = \<lparr>lastModifiedMessageId = Some ''m1'', parentChannelId = None,
                        historyOriginChannelId = None\<rparr>\<rparr>)"
    by simp
  from getChannelState_file [OF assms(1) this, of None] assms(5) show ?thesis by simp
qed

theorem no_reducer_fallback_witness:
  "fst (getState
     (createStateContext (newPluginContextFactory [''m1'', ''m2'']) ''p'' ''C'' ''m2''
        (Some \<lparr>inh_parentChannelId = Some ''P'', inh_historyOriginChannelId = None\<rparr>) None)
     ScopeEpic lineage_world) = Inr (VObj 0 [(''counter'', JNum 5)]) \<and>
   fst (getState
     (createStateContext (newPluginContextFactory [''m1'', ''m2'']) ''p'' ''P'' ''m2'' None None)
     ScopeEpic lineage_world) = Inr (VObj 0 [(''counter'', JNum 5)]) \<and>
   fst (setState
     (createStateContext (newPluginContextFactory [''m1'', ''m2'']) ''p'' ''C'' ''m2''
        (Some \<lparr>inh_parentChannelId = Some ''P'', inh_historyOriginChannelId = None\<rparr>) None)
     ScopeEpic (VNum 4) ''t'' lineage_world) = Inr () \<and>
   epicEventsCache (snd (setState
     (createStateContext (newPluginContextFactory [''m1'', ''m2'']) ''p'' ''C'' ''m2''
        (Some \<lparr>inh_parentChannelId = Some ''P'', inh_historyOriginChannelId = None\<rparr>) None)
     ScopeEpic (VNum 4) ''t'' lineage_world)) ''C'' =
     Some [\<lparr>messageId = ''m2'', timestamp = ''t'', delta = VNum 4\<rparr>] \<and>
   fst (getState
     (createStateContext (newPluginContextFactory [''m1'', ''m2'']) ''p'' ''C'' ''m2''
        (Some \<lparr>inh_parentChannelId = Some ''P'', inh_historyOriginChannelId = None\<rparr>) None)
     ScopeEpic
     (snd (setState
       (createStateContext (newPluginContextFactory [''m1'', ''m2'']) ''p'' ''C'' ''m2''
          (Some \<lparr>inh_parentChannelId = Some ''P'', inh_historyOriginChannelId = None\<rparr>) None)
       ScopeEpic (VNum 4) ''t'' lineage_world))) = Inr (VObj 0 [(''counter'', JNum 5)]) \<and>
   getStateAtMessage
     (createStateContext (newPluginContextFactory [''m1'', ''m2'']) ''p'' ''C'' ''m2''
        (Some \<lparr>inh_parentChannelId = Some ''P'', inh_historyOriginChannelId = None\<rparr>) None)
     ''m2'' lineage_world =
     (Inr VNull, logger LWarn ''getStateAtMessage requires epic scope with reducer'' lineage_world)"
proof -
  let ?inh = "Some \<lparr>inh_parentChannelId = Some ''P'', inh_historyOriginChannelId = None\<rparr>"
  let ?f = "newPluginContextFactory [''m1'', ''m2'']"
  let ?cC = "createStateContext ?f ''p'' ''C'' ''m2'' ?inh None"
  let ?cP = "createStateContext ?f ''p'' ''P'' ''m2'' None None"
  let ?warn = "''Epic reducer not provided, falling back to channel state''"
  let ?md = "\<lparr>lastModifiedMessageId = Some ''m1'', parentChannelId = None,
                      historyOriginChannelId = None\<rparr>"
  let ?parent = "\<lparr>state = VObj 0 [(''counter'', JNum 5)], metadata = ?md\<rparr>"
  let ?doc = "\<lparr>state = JObj [(''counter'', JNum 5)], metadata = ?md\<rparr>"
  let ?w' = "logger LDebug ''Recorded epic event''
        (saveEpicEvents ''C'' [\<lparr>messageId = ''m2'', timestamp = ''t'', delta = VNum 4\<rparr>]
           lineage_world)"
  have hn: "named (historyOrigin_of ?inh) = None" and pn: "named (parent_of ?inh) = Some ''P''"
    by (simp_all add: named_def historyOrigin_of_def parent_of_def)
  have ep: "epicEventsPath lineage_world ''C'' = ''cache/plugins/p/epic/C.json''"
    by (simp add: epicEventsPath_def lineage_world_fields path_join_def path_normalize_def)
  have ec: "epicEventsCache lineage_world = Map.empty"
    by (simp add: lineage_world_def newPluginStateManager_def)
  have e: "getEpicEvents ''C'' lineage_world = (Inr [], lineage_world)"
    by (rule getEpicEvents_missing) (simp_all add: ec ep lineage_world_fields)
  have r: "recordEpicEvent ''C'' ''m2'' (VNum 4) ''t'' lineage_world = (Inr (), ?w')"
    by (simp add: recordEpicEvent_def e array_sort_def)
  have fresh_C: "channelCache v ''C'' = None \<and> files v (channelPath v ''C'') = None"
    if "channelCache v = Map.empty" "cacheDir v = ''cache''" "pluginId v = ''p''"
      "files v ''cache/plugins/p/channel/C.json'' = None" for v
    using that by (simp add: channelPath_def path_join_def path_normalize_def)
  have inherited: "fst (getState ?cC ScopeEpic v) = Inr (VObj 0 [(''counter'', JNum 5)])"
    if t: "channelCache v = Map.empty" "cacheDir v = ''cache''" "pluginId v = ''p''"
      "files v ''cache/plugins/p/channel/C.json'' = None"
      "files v ''cache/plugins/p/channel/P.json'' = Some (ChannelFile ?doc)"
      "nextObject v = 0" for v
  proof -
    let ?ww = "logger LWarn ?warn v"
    from t have "channelCache ?ww ''P'' = None" "cacheDir ?ww = ''cache''" "pluginId ?ww = ''p''"
      "files ?ww ''cache/plugins/p/channel/P.json'' = Some (ChannelFile ?doc)"
      "nextObject ?ww = 0"
      by (simp_all add: logger_fields)
    then obtain v2 where p: "getChannelState ''P'' None ?ww = (Inr ?parent, v2)"
      using read_lineage_parent [of ?ww] by blast
    have sk: "skipped (historyOrigin_of ?inh) ?ww ?ww" by (simp add: skipped_def hn)
    have tr: "truthy (state ?parent)" by simp
    from fresh_C [OF t(1,2,3,4)]
      no_reducer_fallback [of ?f "''p''" "''C''" "''m2''" ?inh v "''m2''" "VNum 4" "''t''",
        THEN conjunct2, THEN conjunct2, THEN conjunct2, THEN conjunct2, THEN conjunct2,
        THEN conjunct2, THEN conjunct2, THEN conjunct1]
    have "\<forall>w1 parentId parent w2.
         skipped (historyOrigin_of ?inh) ?ww w1 \<and> named (parent_of ?inh) = Some parentId \<and>
         getChannelState parentId None w1 = (Inr parent, w2) \<and> truthy (state parent) \<longrightarrow>
         fst (getState ?cC ScopeEpic v) = Inr (state parent)"
      by blast
    from this [rule_format, of ?ww "''P''" ?parent v2] sk pn p tr show ?thesis by simp
  qed
  have 1: "fst (getState ?cC ScopeEpic lineage_world) = Inr (VObj 0 [(''counter'', JNum 5)])"
    by (rule inherited) (simp_all add: lineage_world_fields)
  have "channelCache lineage_world ''P'' = None \<and>
        files lineage_world (channelPath lineage_world ''P'') = Some (ChannelFile ?doc)"
    by (simp add: lineage_world_fields lineage_paths)
  with no_reducer_fallback [of ?f "''p''" "''P''" "''m2''" None lineage_world "''m2''" "VNum 4"
        "''t''", THEN conjunct2, THEN conjunct2, THEN conjunct2, THEN conjunct2, THEN conjunct2,
        THEN conjunct2, THEN conjunct1]
  have "fst (getState ?cP ScopeEpic lineage_world) =
      Inr (fst (JSON_parse (nextObject lineage_world) (state ?doc)))"
    by blast
  then have 2: "fst (getState ?cP ScopeEpic lineage_world) = Inr (VObj 0 [(''counter'', JNum 5)])"
    by (simp add: lineage_world_fields)
  note t = no_reducer_fallback [of ?f "''p''" "''C''" "''m2''" ?inh lineage_world "''m2''"
      "VNum 4" "''t''"]
  from t [THEN conjunct2, THEN conjunct2, THEN conjunct2, THEN conjunct1] r
  have s: "setState ?cC ScopeEpic (VNum 4) ''t'' lineage_world = (Inr (), ?w')" by simp
  have 3: "fst (setState ?cC ScopeEpic (VNum 4) ''t'' lineage_world) = Inr ()"
    unfolding s by simp
  have 4: "epicEventsCache (snd (setState ?cC ScopeEpic (VNum 4) ''t'' lineage_world)) ''C'' =
     Some [\<lparr>messageId = ''m2'', timestamp = ''t'', delta = VNum 4\<rparr>]"
    unfolding s by (simp add: saveEpicEvents_def logger_fields)
  have 5: "fst (getState ?cC ScopeEpic (snd (setState ?cC ScopeEpic (VNum 4) ''t'' lineage_world))) =
      Inr (VObj 0 [(''counter'', JNum 5)])"
    unfolding s snd_conv
    by (rule inherited)
       (simp_all add: logger_fields saveEpicEvents_def lineage_world_fields ep)
  from t [THEN conjunct2, THEN conjunct2, THEN conjunct1]
  have 6: "getStateAtMessage ?cC ''m2'' lineage_world =
     (Inr VNull, logger LWarn ''getStateAtMessage requires epic scope with reducer'' lineage_world)" .
  from 1 2 3 4 5 6 show ?thesis by (intro conjI)
qed

end
